(* ===== verification/Testlib_Prelude.thy ===== *)
theory Testlib_Prelude
  imports Complex_Main "HOL-Library.Word" "HOL-Library.Sublist"
begin

text \<open>
  Shared vocabulary of the development: the fact collections the component
  theories add to, the C++ value types, the character classes of the classic
  "C" locale that the stream extractors of \<^verbatim>\<open>testlib.h\<close> rely on, the value of a
  run of decimal digits, and the list lemmas (on \<open>takeWhile\<close>, \<open>dropWhile\<close> and
  \<open>suffix\<close>) that every proof about "skip, then scan" reuses. The theories
  build on \<open>Complex_Main\<close> because the value of a \<^verbatim>\<open>double\<close> is a real number.
\<close>

section \<open>Fact collections\<close>

named_theorems cxx_defs \<open>unfolding equations of the library and class model\<close>
named_theorems wf_keep \<open>operations keep a stream well-formed\<close>
named_theorems eats \<open>operations only drop a prefix of the unread input\<close>

section \<open>C++ value types\<close>

type_synonym cxx_int = "32 word"
type_synonym path = string

definition INT_MAX :: int where
  "INT_MAX = 2147483647"

definition INT_MIN :: int where
  "INT_MIN = - 2147483648"

definition LONG_MAX :: int where
  "LONG_MAX = 9223372036854775807"

definition LONG_MIN :: int where
  "LONG_MIN = - 9223372036854775808"

definition in_int_range :: "int \<Rightarrow> bool" where
  "in_int_range v \<longleftrightarrow> INT_MIN \<le> v \<and> v \<le> INT_MAX"

lemmas limits_defs = INT_MAX_def INT_MIN_def LONG_MAX_def LONG_MIN_def in_int_range_def

declare limits_defs [cxx_defs]

section \<open>Character classes\<close>

definition isspace :: "char \<Rightarrow> bool" where
  "isspace c \<longleftrightarrow> c = CHR '' '' \<or> (9 \<le> (of_char c :: nat) \<and> (of_char c :: nat) \<le> 13)"

definition isdigit :: "char \<Rightarrow> bool" where
  "isdigit c \<longleftrightarrow> 48 \<le> (of_char c :: nat) \<and> (of_char c :: nat) \<le> 57"

definition digit_val :: "char \<Rightarrow> nat" where
  "digit_val c = of_char c - 48"

definition dec_val :: "string \<Rightarrow> nat" where
  "dec_val ds = foldl (\<lambda>a c. 10 * a + digit_val c) 0 ds"

definition digit_char :: "nat \<Rightarrow> char" where
  "digit_char d = ''0123456789'' ! (d mod 10)"

lemmas char_defs = isspace_def isdigit_def digit_val_def dec_val_def digit_char_def

declare char_defs [cxx_defs]

lemma isspace_simps [simp]:
  "isspace (CHR '' '')" "isspace (CHR 0x09)" "isspace (CHR 0x0A)"
  "isspace (CHR 0x0B)" "isspace (CHR 0x0C)" "isspace (CHR 0x0D)"
  by (simp_all add: isspace_def)

lemma digit_not_space [simp]: "isdigit c \<Longrightarrow> \<not> isspace c"
  by (auto simp: isdigit_def isspace_def)

lemma sign_not_space [simp]: "\<not> isspace (CHR ''-'')" "\<not> isspace (CHR ''+'')"
  by (simp_all add: isspace_def)

lemma sign_not_digit [simp]: "\<not> isdigit (CHR ''-'')" "\<not> isdigit (CHR ''+'')"
  by (simp_all add: isdigit_def)

lemma newline_is_space: "c = CHR 0x0A \<Longrightarrow> isspace c"
  by simp

lemma digit_val_less: "isdigit c \<Longrightarrow> digit_val c < 10"
  by (auto simp: isdigit_def digit_val_def)

lemma of_char_digit_char: "(of_char (digit_char d) :: nat) = 48 + d mod 10"
proof -
  have "(of_char (''0123456789'' ! k) :: nat) = 48 + k" if "k < 10" for k
    using that by (auto simp: less_Suc_eq numeral_eq_Suc nth_Cons')
  then show ?thesis by (simp add: digit_char_def)
qed

lemma isdigit_digit_char [simp]: "isdigit (digit_char d)"
  using mod_less_divisor [of 10 d] by (simp add: isdigit_def of_char_digit_char del: mod_less_divisor)

lemma digit_val_digit_char [simp]: "digit_val (digit_char d) = d mod 10"
  by (simp add: digit_val_def of_char_digit_char)

section \<open>Decimal value of a digit string\<close>

lemma dec_val_Nil [simp]: "dec_val [] = 0"
  by (simp add: dec_val_def)

lemma dec_val_snoc [simp]: "dec_val (ds @ [c]) = 10 * dec_val ds + digit_val c"
  by (simp add: dec_val_def)

lemma dec_val_append:
  "dec_val (xs @ ys) = dec_val xs * 10 ^ length ys + dec_val ys"
proof (induction ys rule: rev_induct)
  case Nil
  then show ?case by simp
next
  case (snoc y ys)
  have "dec_val (xs @ ys @ [y]) = 10 * dec_val (xs @ ys) + digit_val y"
    using dec_val_snoc [of "xs @ ys" y] by simp
  with snoc show ?case by (simp add: algebra_simps)
qed

lemma dec_val_bound:
  "\<forall>c \<in> set ds. isdigit c \<Longrightarrow> dec_val ds < 10 ^ length ds"
proof (induction ds rule: rev_induct)
  case Nil
  then show ?case by simp
next
  case (snoc c ds)
  then have "dec_val ds < 10 ^ length ds" and "digit_val c < 10"
    by (simp_all add: digit_val_less)
  then have "10 * dec_val ds + digit_val c < 10 * 10 ^ length ds"
    by arith
  then show ?case by simp
qed

section \<open>Skipping and scanning\<close>

lemma dropWhile_all [simp]: "\<forall>x \<in> set xs. P x \<Longrightarrow> dropWhile P (xs @ ys) = dropWhile P ys"
  by (induction xs) auto

lemma takeWhile_all [simp]: "\<forall>x \<in> set xs. P x \<Longrightarrow> takeWhile P (xs @ ys) = xs @ takeWhile P ys"
  by (induction xs) auto

lemma dropWhile_stops: "ys = [] \<or> \<not> P (hd ys) \<Longrightarrow> dropWhile P ys = ys"
  by (cases ys) auto

lemma takeWhile_stops: "ys = [] \<or> \<not> P (hd ys) \<Longrightarrow> takeWhile P ys = []"
  by (cases ys) auto

lemma dropWhile_idem [simp]: "dropWhile P (dropWhile P xs) = dropWhile P xs"
  by (induction xs) auto

lemma dropWhile_Nil_iff: "dropWhile P xs = [] \<longleftrightarrow> (\<forall>x \<in> set xs. P x)"
  by (induction xs) auto

lemma dropWhile_hd: "dropWhile P xs \<noteq> [] \<Longrightarrow> \<not> P (hd (dropWhile P xs))"
  by (induction xs) auto

lemma dropWhile_Cons_D: "dropWhile P xs = y # ys \<Longrightarrow> \<not> P y"
  using dropWhile_hd [of P xs] by simp

lemma takeWhile_not_Nil: "xs \<noteq> [] \<Longrightarrow> \<not> P (hd xs) \<Longrightarrow> takeWhile (\<lambda>x. \<not> P x) xs \<noteq> []"
  by (cases xs) auto

lemma length_dropWhile_less:
  "xs \<noteq> [] \<Longrightarrow> P (hd xs) \<Longrightarrow> length (dropWhile P xs) < length xs"
  by (cases xs) (auto simp: less_Suc_eq_le length_dropWhile_le)

lemma suffix_dropWhile_trans:
  "suffix xs ys \<Longrightarrow> suffix (dropWhile P xs) ys"
  by (meson suffix_dropWhile suffix_order.order_trans)

lemma suffix_tl_trans: "suffix xs ys \<Longrightarrow> suffix (tl xs) ys"
  by (meson suffix_tl suffix_order.order_trans)

lemma suffix_Cons_D: "suffix (x # xs) ys \<Longrightarrow> suffix xs ys"
  by (auto simp: suffix_def)

lemma suffix_length_less:
  "suffix xs ys \<Longrightarrow> xs \<noteq> ys \<Longrightarrow> length xs < length ys"
  by (auto simp: suffix_def)

end
