(* ===== verification/Ifstream.thy ===== *)
theory Ifstream
  imports Testlib_Prelude
begin

text \<open>
  The \<^verbatim>\<open>std::ifstream\<close> objects of \<^verbatim>\<open>testlib.h\<close> (the globals \<^verbatim>\<open>inf\<close>, \<^verbatim>\<open>ouf\<close>,
  \<^verbatim>\<open>ans\<close>) and the library calls the header makes on them: \<^verbatim>\<open>open\<close>,
  \<^verbatim>\<open>is_open\<close>, \<^verbatim>\<open>eof\<close>, the conversion to \<^verbatim>\<open>bool\<close>, \<^verbatim>\<open>operator>>\<close> into a
  \<^verbatim>\<open>std::string\<close>, \<^verbatim>\<open>std::getline\<close> and \<^verbatim>\<open>std::ws\<close>. A stream is its open flag,
  the characters not read yet and the three state bits. Each operation is a
  function on that record, written after the C++ standard's description of the
  call ([istream.sentry], [string.io], [istream.manip]). The theory proves for
  every operation that it keeps a stream well-formed and that it only removes
  a prefix of the unread characters, and characterises each success and each
  failure.
\<close>

section \<open>The stream state\<close>

record ifstream =
  is_open :: bool
  buf :: string
  eofbit :: bool
  failbit :: bool
  badbit :: bool

definition closed :: ifstream where
  "closed = \<lparr>is_open = False, buf = [], eofbit = False, failbit = False, badbit = False\<rparr>"

definition good :: "ifstream \<Rightarrow> bool" where
  "good s \<longleftrightarrow> \<not> eofbit s \<and> \<not> failbit s \<and> \<not> badbit s"

definition eof :: "ifstream \<Rightarrow> bool" where
  "eof s \<longleftrightarrow> eofbit s"

definition fail :: "ifstream \<Rightarrow> bool" where
  "fail s \<longleftrightarrow> failbit s \<or> badbit s"

definition open_file :: "(path \<rightharpoonup> string) \<Rightarrow> path \<Rightarrow> ifstream \<Rightarrow> ifstream" where
  "open_file fs p s =
     (if is_open s then s\<lparr>failbit := True\<rparr>
      else case fs p of
        None \<Rightarrow> s\<lparr>failbit := True\<rparr>
      | Some cs \<Rightarrow> s\<lparr>is_open := True, buf := cs,
                    eofbit := False, failbit := False, badbit := False\<rparr>)"

definition opened :: "string \<Rightarrow> ifstream" where
  "opened cs = \<lparr>is_open = True, buf = cs, eofbit = False, failbit = False, badbit = False\<rparr>"

section \<open>The sentry and the whitespace manipulator\<close>

definition sentry :: "bool \<Rightarrow> ifstream \<Rightarrow> bool \<times> ifstream" where
  "sentry noskipws s =
     (if \<not> good s then (False, s\<lparr>failbit := True\<rparr>)
      else if noskipws then (True, s)
      else let r = dropWhile isspace (buf s) in
        if r = [] then (False, s\<lparr>buf := [], eofbit := True, failbit := True\<rparr>)
        else (True, s\<lparr>buf := r\<rparr>))"

definition ws :: "ifstream \<Rightarrow> ifstream" where
  "ws s =
     (case sentry True s of
        (ok, s1) \<Rightarrow>
          if \<not> ok then s1
          else let r = dropWhile isspace (buf s1) in
            s1\<lparr>buf := r, eofbit := eofbit s1 \<or> r = []\<rparr>)"

section \<open>Extraction of a word and of a line\<close>

definition extract_string :: "string \<Rightarrow> ifstream \<Rightarrow> string \<times> ifstream" where
  "extract_string str s =
     (case sentry False s of
        (ok, s1) \<Rightarrow>
          if \<not> ok then (str, s1)
          else let tok = takeWhile (\<lambda>c. \<not> isspace c) (buf s1);
                   r = dropWhile (\<lambda>c. \<not> isspace c) (buf s1)
               in (tok, s1\<lparr>buf := r, eofbit := eofbit s1 \<or> r = [],
                             failbit := failbit s1 \<or> tok = []\<rparr>))"

definition getline :: "string \<Rightarrow> ifstream \<Rightarrow> string \<times> ifstream" where
  "getline str s =
     (case sentry True s of
        (ok, s1) \<Rightarrow>
          if \<not> ok then (str, s1)
          else let line = takeWhile (\<lambda>c. c \<noteq> CHR 0x0A) (buf s1) in
            (case dropWhile (\<lambda>c. c \<noteq> CHR 0x0A) (buf s1) of
               [] \<Rightarrow> (line, s1\<lparr>buf := [], eofbit := True,
                                failbit := failbit s1 \<or> line = []\<rparr>)
             | d # r \<Rightarrow> (line, s1\<lparr>buf := r\<rparr>)))"

lemmas ifstream_defs =
  closed_def opened_def good_def eof_def fail_def open_file_def sentry_def ws_def
  extract_string_def getline_def

declare ifstream_defs [cxx_defs]

section \<open>Well-formed streams\<close>

text \<open>
  What every stream the header can produce satisfies: the unread characters of
  a stream that is not open are none, the end-of-file bit is only set once all
  characters are read, and no I/O error has been flagged (read errors of the
  operating system are outside the model, so nothing raises \<open>badbit\<close>).
\<close>

definition wf_stream :: "ifstream \<Rightarrow> bool" where
  "wf_stream s \<longleftrightarrow> (is_open s \<or> buf s = []) \<and> (\<not> eofbit s \<or> buf s = []) \<and> \<not> badbit s"

text \<open>
  A stream a reader can still be called on: well-formed, and if it has failed
  then it has failed at the end of the file. Streams opened by the bootstrap
  are live, and a stream is live after every call that did not fail
  (\<open>live_ok\<close>, \<open>live_ws\<close>).
\<close>

definition live :: "ifstream \<Rightarrow> bool" where
  "live s \<longleftrightarrow> wf_stream s \<and> (failbit s \<longrightarrow> eofbit s)"

lemma wf_closed [wf_keep]: "wf_stream closed"
  by (simp add: wf_stream_def closed_def)

lemma wf_open_file [wf_keep]: "wf_stream s \<Longrightarrow> wf_stream (open_file fs p s)"
  by (auto simp: wf_stream_def open_file_def split: option.splits)

lemma wf_sentry [wf_keep]: "wf_stream s \<Longrightarrow> wf_stream (snd (sentry n s))"
  by (auto simp: wf_stream_def sentry_def Let_def)

lemma wf_ws [wf_keep]: "wf_stream s \<Longrightarrow> wf_stream (ws s)"
  by (auto simp: wf_stream_def ws_def sentry_def Let_def)

lemma wf_extract_string [wf_keep]: "wf_stream s \<Longrightarrow> wf_stream (snd (extract_string str s))"
  by (auto simp: wf_stream_def extract_string_def sentry_def Let_def)

lemma wf_getline [wf_keep]: "wf_stream s \<Longrightarrow> wf_stream (snd (getline str s))"
  by (auto simp: wf_stream_def getline_def sentry_def Let_def split: list.splits)

section \<open>Operations only consume\<close>

lemma sentry_suffix [eats]: "suffix (buf (snd (sentry n s))) (buf s)"
  by (auto simp: sentry_def Let_def suffix_dropWhile)

lemma ws_suffix [eats]: "suffix (buf (ws s)) (buf s)"
  by (auto simp: ws_def sentry_def Let_def suffix_dropWhile)

lemma extract_string_suffix [eats]: "suffix (buf (snd (extract_string str s))) (buf s)"
  by (auto simp: extract_string_def sentry_def Let_def suffix_dropWhile
      intro: suffix_dropWhile_trans)

lemma getline_suffix [eats]: "suffix (buf (snd (getline str s))) (buf s)"
proof -
  have "suffix r (buf s)" if "dropWhile (\<lambda>c. c \<noteq> CHR 0x0A) (buf s) = d # r" for d r
    using suffix_dropWhile [of "\<lambda>c. c \<noteq> CHR 0x0A" "buf s"] that
    by (auto dest: suffix_Cons_D)
  then show ?thesis
    by (auto simp: getline_def sentry_def Let_def split: list.splits)
qed

lemma sentry_is_open [simp]: "is_open (snd (sentry n s)) = is_open s"
  by (simp add: sentry_def Let_def)

lemma ws_is_open [simp]: "is_open (ws s) = is_open s"
  by (simp add: ws_def sentry_def Let_def)

section \<open>The sentry, case by case\<close>

lemma sentry_not_good: "\<not> good s \<Longrightarrow> sentry n s = (False, s\<lparr>failbit := True\<rparr>)"
  by (simp add: sentry_def)

lemma sentry_noskip: "good s \<Longrightarrow> sentry True s = (True, s)"
  by (simp add: sentry_def)

lemma sentry_skip_token:
  "good s \<Longrightarrow> dropWhile isspace (buf s) \<noteq> [] \<Longrightarrow>
   sentry False s = (True, s\<lparr>buf := dropWhile isspace (buf s)\<rparr>)"
  by (simp add: sentry_def Let_def)

lemma sentry_skip_eof:
  "good s \<Longrightarrow> dropWhile isspace (buf s) = [] \<Longrightarrow>
   sentry False s = (False, s\<lparr>buf := [], eofbit := True, failbit := True\<rparr>)"
  by (simp add: sentry_def Let_def)

lemmas sentry_cases = sentry_not_good sentry_noskip sentry_skip_token sentry_skip_eof

lemma sentry_ok_good: "sentry n s = (True, s1) \<Longrightarrow> good s \<and> good s1"
  by (auto simp: sentry_def Let_def good_def split: if_splits)

lemma sentry_ok_nonspace:
  assumes "sentry False s = (True, s1)"
  shows "buf s1 \<noteq> [] \<and> \<not> isspace (hd (buf s1))"
proof -
  from assms have "buf s1 = dropWhile isspace (buf s)" "dropWhile isspace (buf s) \<noteq> []"
    by (auto simp: sentry_def Let_def simp del: dropWhile_eq_Nil_conv split: if_splits)
  then show ?thesis using dropWhile_hd [of isspace "buf s"] by simp
qed

section \<open>\<open>ws\<close> and end-of-file\<close>

lemma ws_good:
  "good s \<Longrightarrow> ws s = s\<lparr>buf := dropWhile isspace (buf s),
                        eofbit := (dropWhile isspace (buf s) = [])\<rparr>"
  by (cases s) (simp add: ws_def sentry_noskip good_def)

lemma ws_not_good: "\<not> good s \<Longrightarrow> ws s = s\<lparr>failbit := True\<rparr>"
  by (simp add: ws_def sentry_not_good)

lemma eof_ws_iff: "live s \<Longrightarrow> eof (ws s) \<longleftrightarrow> (\<forall>c \<in> set (buf s). isspace c)"
proof (cases "good s")
  case True
  then show ?thesis by (simp add: ws_good eof_def dropWhile_Nil_iff)
next
  case False
  assume "live s"
  with False have "eofbit s" "buf s = []"
    by (auto simp: live_def wf_stream_def good_def)
  with False show ?thesis by (simp add: ws_not_good eof_def)
qed

lemma live_ws [wf_keep]: "live s \<Longrightarrow> live (ws s)"
  by (cases "good s") (auto simp: ws_good ws_not_good live_def wf_stream_def good_def)

section \<open>Extraction of a word, case by case\<close>

lemma skip_to_token:
  assumes "\<forall>c \<in> set sp. isspace c" "tok \<noteq> []" "\<not> isspace (hd tok)"
  shows "dropWhile isspace (sp @ tok @ r) = tok @ r"
  using assms by (cases tok) (simp_all add: dropWhile_stops)

lemma extract_string_not_good:
  "\<not> good s \<Longrightarrow> extract_string str s = (str, s\<lparr>failbit := True\<rparr>)"
  by (simp add: extract_string_def sentry_not_good)

lemma extract_string_eof:
  "good s \<Longrightarrow> \<forall>c \<in> set (buf s). isspace c \<Longrightarrow>
   extract_string str s = (str, s\<lparr>buf := [], eofbit := True, failbit := True\<rparr>)"
  by (simp add: extract_string_def sentry_skip_eof dropWhile_Nil_iff)

lemma extract_string_token:
  assumes "good s" and "buf s = sp @ tok @ r" and "\<forall>c \<in> set sp. isspace c"
    and "tok \<noteq> []" and "\<forall>c \<in> set tok. \<not> isspace c" and "r = [] \<or> isspace (hd r)"
  shows "extract_string str s = (tok, s\<lparr>buf := r, eofbit := (r = [])\<rparr>)"
proof -
  have hd: "\<not> isspace (hd tok)" using assms(4,5) by (cases tok) auto
  have "dropWhile isspace (buf s) = tok @ r"
    unfolding assms(2) using assms(3,4) hd by (rule skip_to_token)
  with assms(1,4) have "sentry False s = (True, s\<lparr>buf := tok @ r\<rparr>)"
    by (simp add: sentry_skip_token)
  moreover have "takeWhile (\<lambda>c. \<not> isspace c) (tok @ r) = tok"
    "dropWhile (\<lambda>c. \<not> isspace c) (tok @ r) = r"
    using assms(5,6) by (simp_all add: takeWhile_stops dropWhile_stops)
  ultimately show ?thesis
    using assms(1,4) by (cases s)
      (simp add: extract_string_def good_def del: dropWhile_eq_Nil_conv takeWhile_eq_Nil_iff)
qed

lemma fail_extract_string_iff:
  "good s \<Longrightarrow> fail (snd (extract_string str s)) \<longleftrightarrow> (\<forall>c \<in> set (buf s). isspace c)"
proof (cases "dropWhile isspace (buf s) = []")
  case True
  assume "good s"
  with True show ?thesis
    by (simp add: extract_string_eof dropWhile_Nil_iff fail_def)
next
  case False
  assume g: "good s"
  let ?r = "dropWhile isspace (buf s)"
  have "takeWhile (\<lambda>c. \<not> isspace c) ?r \<noteq> []"
    using False dropWhile_hd [of isspace "buf s"] by (rule_tac takeWhile_not_Nil) auto
  with g False show ?thesis
    by (simp add: extract_string_def sentry_skip_token fail_def good_def dropWhile_Nil_iff)
qed

lemma extract_string_fail_eof:
  "live s \<Longrightarrow> fail (snd (extract_string str s)) \<Longrightarrow> eof (snd (extract_string str s))"
proof (cases "good s")
  case True
  assume "fail (snd (extract_string str s))"
  with True have "\<forall>c \<in> set (buf s). isspace c" by (simp add: fail_extract_string_iff)
  with True show ?thesis by (simp add: extract_string_eof eof_def)
next
  case False
  assume "live s"
  with False show ?thesis
    by (auto simp: extract_string_not_good eof_def live_def wf_stream_def good_def)
qed

section \<open>\<open>getline\<close>, case by case\<close>

lemma getline_not_good: "\<not> good s \<Longrightarrow> getline str s = (str, s\<lparr>failbit := True\<rparr>)"
  by (simp add: getline_def sentry_not_good)

lemma getline_line:
  assumes "good s" and "buf s = line @ CHR 0x0A # r" and "CHR 0x0A \<notin> set line"
  shows "getline str s = (line, s\<lparr>buf := r\<rparr>)"
proof -
  have "\<forall>c \<in> set line. c \<noteq> CHR 0x0A" using assms(3) by auto
  then have "takeWhile (\<lambda>c. c \<noteq> CHR 0x0A) (buf s) = line"
    "dropWhile (\<lambda>c. c \<noteq> CHR 0x0A) (buf s) = CHR 0x0A # r"
    unfolding assms(2) by simp_all
  with assms(1) show ?thesis
    by (simp add: getline_def sentry_noskip)
qed

lemma getline_last:
  assumes "good s" and "CHR 0x0A \<notin> set (buf s)"
  shows "getline str s = (buf s, s\<lparr>buf := [], eofbit := True, failbit := (buf s = [])\<rparr>)"
proof -
  have "takeWhile (\<lambda>c. c \<noteq> CHR 0x0A) (buf s) = buf s"
    "dropWhile (\<lambda>c. c \<noteq> CHR 0x0A) (buf s) = []"
    using assms(2) by (auto simp: dropWhile_Nil_iff takeWhile_eq_all_conv)
  with assms(1) show ?thesis
    by (cases s) (simp add: getline_def sentry_noskip good_def Let_def
        del: dropWhile_eq_Nil_conv takeWhile_eq_all_conv)
qed

lemma fail_getline_iff: "good s \<Longrightarrow> fail (snd (getline str s)) \<longleftrightarrow> buf s = []"
  by (cases "buf s")
    (auto simp: getline_def sentry_noskip fail_def good_def Let_def split: list.splits)

lemma getline_no_newline:
  "good s \<Longrightarrow> CHR 0x0A \<notin> set (fst (getline str s))"
  by (auto simp: getline_def sentry_noskip Let_def split: list.splits dest: set_takeWhileD)

lemma getline_fail_eof:
  "live s \<Longrightarrow> fail (snd (getline str s)) \<Longrightarrow> eof (snd (getline str s))"
proof (cases "good s")
  case True
  assume "fail (snd (getline str s))"
  with True have "buf s = []" by (simp add: fail_getline_iff)
  then have "CHR 0x0A \<notin> set (buf s)" by simp
  from getline_last [OF True this] show ?thesis by (simp add: eof_def)
next
  case False
  assume "live s"
  with False show ?thesis
    by (auto simp: getline_not_good eof_def live_def wf_stream_def good_def)
qed

section \<open>Opening\<close>

lemma open_file_closed:
  "open_file fs p closed = (case fs p of None \<Rightarrow> closed\<lparr>failbit := True\<rparr> | Some cs \<Rightarrow> opened cs)"
  by (simp add: open_file_def closed_def opened_def split: option.splits)

lemma is_open_open_file:
  "is_open (open_file fs p s) \<longleftrightarrow> is_open s \<or> fs p \<noteq> None"
  by (auto simp: open_file_def split: option.splits)

lemma good_opened [simp]: "good (opened cs)"
  by (simp add: good_def opened_def)

lemma live_opened [simp]: "live (opened cs)"
  by (simp add: live_def wf_stream_def opened_def)

lemma buf_opened [simp]: "buf (opened cs) = cs"
  by (simp add: opened_def)

lemma is_open_opened [simp]: "is_open (opened cs)"
  by (simp add: opened_def)

lemma live_open_file [wf_keep]: "live s \<Longrightarrow> \<not> is_open s \<Longrightarrow> fs p \<noteq> None \<Longrightarrow> live (open_file fs p s)"
  by (auto simp: live_def wf_stream_def open_file_def split: option.splits)

section \<open>Streams that failed at the end\<close>

lemma live_not_good:
  assumes "live s" "\<not> good s"
  shows "eofbit s" "buf s = []" "\<not> badbit s"
  using assms by (auto simp: live_def wf_stream_def good_def)

lemma live_at_end:
  assumes "live s" "\<not> good s"
  shows "s\<lparr>failbit := True\<rparr> = s\<lparr>buf := [], eofbit := True, failbit := True\<rparr>"
  using live_not_good [OF assms] by (cases s) simp

lemma live_ok: "wf_stream s \<Longrightarrow> \<not> fail s \<Longrightarrow> live s"
  by (simp add: live_def fail_def)

lemma extract_string_past_end:
  assumes "live s" "\<forall>c \<in> set (buf s). isspace c"
  shows "extract_string str s = (str, s\<lparr>buf := [], eofbit := True, failbit := True\<rparr>)"
proof (cases "good s")
  case True
  from True assms(2) show ?thesis by (rule extract_string_eof)
next
  case False
  with assms(1) show ?thesis by (simp add: extract_string_not_good live_at_end)
qed

lemma getline_past_end:
  assumes "live s" "buf s = []"
  shows "getline [] s = ([], s\<lparr>buf := [], eofbit := True, failbit := True\<rparr>)"
proof (cases "good s")
  case True
  from getline_last [OF True, of "[]"] assms(2) show ?thesis by simp
next
  case False
  with assms(1) show ?thesis by (simp add: getline_not_good live_at_end)
qed

section \<open>A successful extraction consumes input\<close>

lemma extract_string_progress:
  assumes "\<not> fail (snd (extract_string str s))"
  shows "length (buf (snd (extract_string str s))) < length (buf s)"
proof -
  let ?r = "dropWhile isspace (buf s)"
  let ?tok = "takeWhile (\<lambda>c. \<not> isspace c) ?r"
  from assms have g: "good s"
    by (cases "good s") (simp_all add: extract_string_not_good fail_def)
  with assms have ne: "?r \<noteq> []"
    by (auto simp: fail_extract_string_iff dropWhile_Nil_iff)
  then have "?tok \<noteq> []"
    using dropWhile_hd [of isspace "buf s"] by (intro takeWhile_not_Nil) auto
  then have "length (dropWhile (\<lambda>c. \<not> isspace c) ?r) < length ?r"
    using takeWhile_dropWhile_id [of "\<lambda>c. \<not> isspace c" ?r]
    by (metis length_append length_greater_0_conv less_add_same_cancel2)
  also have "\<dots> \<le> length (buf s)" by (rule length_dropWhile_le)
  finally show ?thesis
    using g ne by (simp add: extract_string_def sentry_skip_token Let_def)
qed

lemma getline_progress:
  assumes "\<not> fail (snd (getline str s))"
  shows "length (buf (snd (getline str s))) < length (buf s)"
proof -
  from assms have g: "good s"
    by (cases "good s") (simp_all add: getline_not_good fail_def)
  with assms have ne: "buf s \<noteq> []" by (simp add: fail_getline_iff)
  have "length r < length (buf s)" if "dropWhile (\<lambda>c. c \<noteq> CHR 0x0A) (buf s) = d # r" for d r
    using length_dropWhile_le [of "\<lambda>c. c \<noteq> CHR 0x0A" "buf s"] that by simp
  with g ne show ?thesis
    by (auto simp: getline_def sentry_noskip Let_def split: list.splits)
qed

lemma live_after_token: "live ((opened cs)\<lparr>buf := r, eofbit := (r = [])\<rparr>)"
  by (simp add: live_def wf_stream_def opened_def)

end
