(* ===== verification/Num_Get.thy ===== *)
theory Num_Get
  imports Ifstream
begin

text \<open>
  \<^verbatim>\<open>stream >> result\<close> for an \<^verbatim>\<open>int result\<close>, the call in \<^verbatim>\<open>InStream::readInt\<close>:
  the sentry, then \<^verbatim>\<open>num_get\<close> for a \<^verbatim>\<open>long\<close> in its three stages (the
  conversion is decimal, stage 2 accumulates an optional sign and the digits
  that follow, stage 3 converts the field as \<^verbatim>\<open>strtoll\<close> would), then the range
  check by which \<^verbatim>\<open>operator>>(int&)\<close> narrows the \<^verbatim>\<open>long\<close>
  ([istream.formatted.arithmetic], [facet.num.get.virtuals]). The variable is
  passed in and out as an option, \<open>None\<close> for a variable never assigned, because
  the operator leaves it untouched when the sentry fails. \<open>long\<close> has 64 bits
  here (LP64); \<open>narrow_long_irrelevant\<close> shows the stored \<^verbatim>\<open>int\<close> is the same
  for any width of at least 32 bits.
\<close>

section \<open>The three stages of \<open>num_get\<close>\<close>

fun take_sign :: "string \<Rightarrow> string \<times> string" where
  "take_sign [] = ([], [])"
| "take_sign (c # cs) = (if c = CHR ''+'' \<or> c = CHR ''-'' then ([c], cs) else ([], c # cs))"

definition accumulate :: "string \<Rightarrow> string \<times> string" where
  "accumulate cs =
     (case take_sign cs of (sg, r) \<Rightarrow> (sg @ takeWhile isdigit r, dropWhile isdigit r))"

definition signed_val :: "string \<Rightarrow> string \<Rightarrow> int" where
  "signed_val sg ds = (if sg = ''-'' then - int (dec_val ds) else int (dec_val ds))"

definition field_value :: "string \<Rightarrow> int option" where
  "field_value fld =
     (case take_sign fld of
        (sg, ds) \<Rightarrow>
          if ds = [] \<or> \<not> list_all isdigit ds then None
          else Some (signed_val sg ds))"

record num_got =
  got_val :: int
  got_fail :: bool
  got_eof :: bool
  got_rest :: string

definition num_get_signed :: "int \<Rightarrow> int \<Rightarrow> string \<Rightarrow> num_got" where
  "num_get_signed lo hi cs =
     (case accumulate cs of
        (fld, r) \<Rightarrow>
          (case field_value fld of
             None \<Rightarrow> \<lparr>got_val = 0, got_fail = True, got_eof = (r = []), got_rest = r\<rparr>
           | Some v \<Rightarrow>
               if hi < v
               then \<lparr>got_val = hi, got_fail = True, got_eof = (r = []), got_rest = r\<rparr>
               else if v < lo
               then \<lparr>got_val = lo, got_fail = True, got_eof = (r = []), got_rest = r\<rparr>
               else \<lparr>got_val = v, got_fail = False, got_eof = (r = []), got_rest = r\<rparr>))"

definition num_get_long :: "string \<Rightarrow> num_got" where
  "num_get_long = num_get_signed LONG_MIN LONG_MAX"

definition narrow_int :: "int \<Rightarrow> int \<times> bool" where
  "narrow_int lval =
     (if lval < INT_MIN then (INT_MIN, True)
      else if INT_MAX < lval then (INT_MAX, True)
      else (lval, False))"

section \<open>The extractor\<close>

definition extract_int :: "cxx_int option \<Rightarrow> ifstream \<Rightarrow> cxx_int option \<times> ifstream" where
  "extract_int val s =
     (case sentry False s of
        (ok, s1) \<Rightarrow>
          if \<not> ok then (val, s1)
          else let g = num_get_long (buf s1) in
            (case narrow_int (got_val g) of
               (v, out_of_range) \<Rightarrow>
                 (Some (word_of_int v),
                  s1\<lparr>buf := got_rest g,
                     eofbit := eofbit s1 \<or> got_eof g,
                     failbit := failbit s1 \<or> got_fail g \<or> out_of_range\<rparr>)))"

section \<open>What reading an integer promises\<close>

text \<open>
  The reference the extractor is compared with: skip whitespace, take the
  longest sign-and-digits field, and succeed with its value and the rest when
  the field is a literal in the range of \<^verbatim>\<open>int\<close>.
\<close>

definition next_int :: "string \<Rightarrow> (int \<times> string) option" where
  "next_int cs =
     (case accumulate (dropWhile isspace cs) of
        (fld, r) \<Rightarrow>
          (case field_value fld of
             None \<Rightarrow> None
           | Some v \<Rightarrow> if in_int_range v then Some (v, r) else None))"

lemmas num_get_defs =
  accumulate_def signed_val_def field_value_def num_get_signed_def num_get_long_def
  narrow_int_def extract_int_def next_int_def

declare num_get_defs [cxx_defs]

section \<open>Integer literals\<close>

text \<open>
  A well-formed integer token is a string on which \<open>field_value\<close> is defined: an
  optional sign and at least one digit, nothing else.
\<close>

lemma field_value_Nil [simp]: "field_value [] = None"
  by (simp add: field_value_def)

lemma field_value_sign:
  "c = CHR ''+'' \<or> c = CHR ''-'' \<Longrightarrow>
   field_value (c # cs) =
     (if cs = [] \<or> \<not> list_all isdigit cs then None else Some (signed_val [c] cs))"
  by (auto simp: field_value_def)

lemma field_value_nosign:
  "c \<noteq> CHR ''+'' \<Longrightarrow> c \<noteq> CHR ''-'' \<Longrightarrow>
   field_value (c # cs) =
     (if \<not> list_all isdigit (c # cs) then None else Some (signed_val [] (c # cs)))"
  by (auto simp: field_value_def)

lemma field_value_literal:
  assumes "sg \<in> {[], ''+'', ''-''}" "ds \<noteq> []" "list_all isdigit ds"
  shows "field_value (sg @ ds) = Some (signed_val sg ds)"
proof -
  obtain d ds' where ds: "ds = d # ds'" using assms(2) by (cases ds) auto
  with assms(3) have "isdigit d" by simp
  then have "d \<noteq> CHR ''+''" "d \<noteq> CHR ''-''" by auto
  with assms show ?thesis
    by (auto simp: field_value_sign field_value_nosign ds)
qed

lemma field_value_SomeD:
  assumes "field_value lit = Some v"
  obtains sg ds where "lit = sg @ ds" "sg \<in> {[], ''+'', ''-''}" "ds \<noteq> []"
    "list_all isdigit ds" "v = signed_val sg ds"
proof (cases lit)
  case Nil
  with assms show ?thesis by simp
next
  case (Cons c cs)
  show ?thesis
  proof (cases "c = CHR ''+'' \<or> c = CHR ''-''")
    case True
    with assms Cons have "cs \<noteq> []" "list_all isdigit cs" "v = signed_val [c] cs"
      by (auto simp: field_value_sign split: if_splits)
    with True Cons that [of "[c]" cs] show ?thesis by auto
  next
    case False
    with assms Cons have "list_all isdigit lit" "v = signed_val [] lit"
      by (auto simp: field_value_nosign split: if_splits)
    with Cons that [of "[]" lit] show ?thesis by auto
  qed
qed

lemma field_value_nonempty: "field_value lit = Some v \<Longrightarrow> lit \<noteq> []"
  by (erule field_value_SomeD) auto

lemma field_value_no_space:
  assumes "field_value lit = Some v"
  shows "\<not> isspace (hd lit)"
proof -
  from assms obtain sg ds where "lit = sg @ ds" "sg \<in> {[], ''+'', ''-''}" "ds \<noteq> []"
    "list_all isdigit ds"
    by (rule field_value_SomeD)
  then show ?thesis by (cases ds) auto
qed

lemma take_sign_literal:
  assumes "sg \<in> {[], ''+'', ''-''}" "ds \<noteq> []" "list_all isdigit ds"
  shows "take_sign (sg @ ds @ r) = (sg, ds @ r)"
proof -
  obtain d ds' where ds: "ds = d # ds'" using assms(2) by (cases ds) auto
  with assms(3) have "isdigit d" by simp
  then have "d \<noteq> CHR ''+''" "d \<noteq> CHR ''-''" by auto
  with assms(1) ds show ?thesis by auto
qed

lemma accumulate_literal:
  assumes "field_value lit = Some v" and "r = [] \<or> \<not> isdigit (hd r)"
  shows "accumulate (lit @ r) = (lit, r)"
proof -
  from assms(1) obtain sg ds where lit: "lit = sg @ ds" and sg: "sg \<in> {[], ''+'', ''-''}"
    and ds: "ds \<noteq> []" "list_all isdigit ds"
    by (rule field_value_SomeD)
  have digits: "\<forall>c \<in> set ds. isdigit c" using ds by (simp add: list_all_iff)
  have "takeWhile isdigit (ds @ r) = ds" "dropWhile isdigit (ds @ r) = r"
    using digits assms(2) by (simp_all add: takeWhile_stops dropWhile_stops)
  with take_sign_literal [OF sg ds, of r] lit show ?thesis
    by (simp add: accumulate_def)
qed

lemma accumulate_suffix: "suffix (snd (accumulate cs)) cs"
proof (cases cs)
  case Nil
  then show ?thesis by (simp add: accumulate_def)
next
  case (Cons c r)
  have "suffix (dropWhile isdigit r) (c # r)"
    by (simp add: suffix_Cons suffix_dropWhile)
  with Cons show ?thesis
    by (auto simp: accumulate_def suffix_dropWhile)
qed

section \<open>Narrowing\<close>

lemma narrow_int_in_range: "in_int_range (fst (narrow_int l))"
  by (simp add: narrow_int_def limits_defs)

lemma narrow_int_id: "in_int_range v \<Longrightarrow> narrow_int v = (v, False)"
  by (simp add: narrow_int_def limits_defs)

lemma narrow_int_fails_iff: "snd (narrow_int v) \<longleftrightarrow> \<not> in_int_range v"
  by (auto simp: narrow_int_def limits_defs)

lemma sint_in_range: "in_int_range v \<Longrightarrow> sint (word_of_int v :: cxx_int) = v"
  by (simp add: limits_defs sint_sbintrunc' signed_take_bit_int_eq_self_iff)

lemma sint_narrow_int: "sint (word_of_int (fst (narrow_int l)) :: cxx_int) = fst (narrow_int l)"
  by (rule sint_in_range) (rule narrow_int_in_range)

section \<open>The \<open>long\<close> stage\<close>

lemma num_get_signed_literal:
  assumes "field_value lit = Some v" "r = [] \<or> \<not> isdigit (hd r)" "lo \<le> v" "v \<le> hi"
  shows "num_get_signed lo hi (lit @ r) =
    \<lparr>got_val = v, got_fail = False, got_eof = (r = []), got_rest = r\<rparr>"
  using assms accumulate_literal [OF assms(1,2)]
  by (simp add: num_get_signed_def)

lemma num_get_long_literal:
  assumes "field_value lit = Some v" "r = [] \<or> \<not> isdigit (hd r)" "in_int_range v"
  shows "num_get_long (lit @ r) =
    \<lparr>got_val = v, got_fail = False, got_eof = (r = []), got_rest = r\<rparr>"
  unfolding num_get_long_def using assms
  by (intro num_get_signed_literal) (simp_all add: limits_defs)

lemma num_get_signed_rest:
  "got_rest (num_get_signed lo hi cs) = snd (accumulate cs)"
  "got_eof (num_get_signed lo hi cs) = (snd (accumulate cs) = [])"
  by (auto simp: num_get_signed_def split: prod.splits option.splits)

lemma narrow_long_irrelevant:
  assumes "lo \<le> INT_MIN" "INT_MAX \<le> hi" "accumulate cs = (fld, r)" "field_value fld = Some v"
  shows "fst (narrow_int (got_val (num_get_signed lo hi cs))) = fst (narrow_int v)"
    and "got_fail (num_get_signed lo hi cs) \<or> snd (narrow_int (got_val (num_get_signed lo hi cs)))
         \<longleftrightarrow> \<not> in_int_range v"
  using assms by (auto simp: num_get_signed_def narrow_int_def limits_defs)

section \<open>The extractor against the reference\<close>

lemma extract_int_not_good:
  "\<not> good s \<Longrightarrow> extract_int val s = (val, s\<lparr>failbit := True\<rparr>)"
  by (simp add: extract_int_def sentry_not_good)

lemma extract_int_eof:
  "good s \<Longrightarrow> \<forall>c \<in> set (buf s). isspace c \<Longrightarrow>
   extract_int val s = (val, s\<lparr>buf := [], eofbit := True, failbit := True\<rparr>)"
  by (simp add: extract_int_def sentry_skip_eof dropWhile_Nil_iff)

lemma extract_int_scan:
  assumes "good s" and "dropWhile isspace (buf s) \<noteq> []"
    and "accumulate (dropWhile isspace (buf s)) = (fld, r)"
  shows "extract_int val s =
    (Some (word_of_int (fst (narrow_int (got_val (num_get_long (dropWhile isspace (buf s))))))),
     s\<lparr>buf := r, eofbit := (r = []),
        failbit := (case field_value fld of None \<Rightarrow> True | Some v \<Rightarrow> \<not> in_int_range v)\<rparr>)"
proof -
  let ?cs = "dropWhile isspace (buf s)"
  have s1: "sentry False s = (True, s\<lparr>buf := ?cs\<rparr>)"
    using assms(1,2) by (rule sentry_skip_token)
  have rest: "got_rest (num_get_long ?cs) = r" "got_eof (num_get_long ?cs) = (r = [])"
    using assms(3) by (simp_all add: num_get_long_def num_get_signed_rest)
  have flag: "got_fail (num_get_long ?cs) \<or> snd (narrow_int (got_val (num_get_long ?cs)))
      \<longleftrightarrow> (case field_value fld of None \<Rightarrow> True | Some v \<Rightarrow> \<not> in_int_range v)"
  proof (cases "field_value fld")
    case None
    with assms(3) show ?thesis by (simp add: num_get_long_def num_get_signed_def)
  next
    case (Some v)
    with narrow_long_irrelevant(2) [OF _ _ assms(3) Some, of LONG_MIN LONG_MAX]
    show ?thesis by (simp add: num_get_long_def limits_defs)
  qed
  show ?thesis
    using assms(1) s1 rest flag
    by (cases s) (simp add: extract_int_def good_def Let_def case_prod_beta)
qed

lemma next_int_None_space: "\<forall>c \<in> set cs. isspace c \<Longrightarrow> next_int cs = None"
  by (simp add: next_int_def dropWhile_Nil_iff [THEN iffD2] accumulate_def)

lemma extract_int_ok:
  assumes "good s" and "next_int (buf s) = Some (v, r)"
  shows "extract_int val s = (Some (word_of_int v), s\<lparr>buf := r, eofbit := (r = [])\<rparr>)"
proof -
  let ?cs = "dropWhile isspace (buf s)"
  obtain fld where acc: "accumulate ?cs = (fld, r)" and fv: "field_value fld = Some v"
    and rng: "in_int_range v"
    using assms(2) by (auto simp: next_int_def split: prod.splits option.splits if_splits)
  have ne: "?cs \<noteq> []"
  proof
    assume "?cs = []"
    with acc have "fld = []" by (simp add: accumulate_def)
    with fv show False by simp
  qed
  have "fst (narrow_int (got_val (num_get_long ?cs))) = v"
    using narrow_long_irrelevant(1) [OF _ _ acc fv, of LONG_MIN LONG_MAX] narrow_int_id [OF rng]
    by (simp add: num_get_long_def limits_defs)
  with extract_int_scan [OF assms(1) ne acc, of val] fv rng assms(1)
  show ?thesis by (cases s) (simp add: good_def)
qed

lemma fail_extract_int_iff:
  assumes "good s"
  shows "fail (snd (extract_int val s)) \<longleftrightarrow> next_int (buf s) = None"
proof (cases "dropWhile isspace (buf s) = []")
  case True
  then have "\<forall>c \<in> set (buf s). isspace c" by (simp add: dropWhile_Nil_iff)
  with assms show ?thesis
    by (simp add: extract_int_eof next_int_None_space fail_def)
next
  case False
  obtain fld r where acc: "accumulate (dropWhile isspace (buf s)) = (fld, r)"
    by (cases "accumulate (dropWhile isspace (buf s))")
  from extract_int_scan [OF assms False acc, of val] assms acc show ?thesis
    by (auto simp: fail_def good_def next_int_def split: option.splits)
qed

lemma eof_extract_int_iff:
  assumes "good s"
  shows "eof (snd (extract_int val s)) \<longleftrightarrow> snd (accumulate (dropWhile isspace (buf s))) = []"
proof (cases "dropWhile isspace (buf s) = []")
  case True
  then have "\<forall>c \<in> set (buf s). isspace c" by (simp add: dropWhile_Nil_iff)
  moreover have "accumulate (dropWhile isspace (buf s)) = ([], [])"
    unfolding True by (simp add: accumulate_def)
  ultimately show ?thesis
    using assms by (simp add: extract_int_eof eof_def)
next
  case False
  obtain fld r where acc: "accumulate (dropWhile isspace (buf s)) = (fld, r)"
    by (cases "accumulate (dropWhile isspace (buf s))")
  from extract_int_scan [OF assms False acc, of val] acc show ?thesis
    by (simp add: eof_def)
qed

lemma extract_int_assigned:
  "\<not> fail (snd (extract_int val s)) \<Longrightarrow> \<exists>v. fst (extract_int val s) = Some v"
  by (auto simp: extract_int_def sentry_def fail_def Let_def split: prod.splits if_splits)

lemma next_int_literal:
  assumes "\<forall>c \<in> set sp. isspace c" and "field_value lit = Some v"
    and "r = [] \<or> \<not> isdigit (hd r)" and "in_int_range v"
  shows "next_int (sp @ lit @ r) = Some (v, r)"
proof -
  have "dropWhile isspace (sp @ lit @ r) = lit @ r"
    using assms(1) field_value_nonempty [OF assms(2)] field_value_no_space [OF assms(2)]
    by (rule skip_to_token)
  with accumulate_literal [OF assms(2,3)] assms(2,4) show ?thesis
    by (simp add: next_int_def)
qed

lemma accumulate_split: "accumulate cs = (fld, r) \<Longrightarrow> fld @ r = cs"
  by (cases cs) (auto simp: accumulate_def split: if_splits)

lemma next_int_consumes:
  assumes "next_int cs = Some (v, r)"
  shows "suffix r cs \<and> length r < length cs"
proof -
  let ?cs = "dropWhile isspace cs"
  obtain fld where acc: "accumulate ?cs = (fld, r)" and fv: "field_value fld = Some v"
    using assms by (auto simp: next_int_def split: prod.splits option.splits if_splits)
  from acc have split: "fld @ r = ?cs" by (rule accumulate_split)
  then have "suffix r ?cs" by (metis suffixI)
  then have "suffix r cs" by (rule suffix_order.trans) (rule suffix_dropWhile)
  moreover have "length r < length ?cs"
    using arg_cong [OF split, of length] field_value_nonempty [OF fv] by (cases fld) auto
  then have "length r < length cs"
    using length_dropWhile_le [of isspace cs] by simp
  ultimately show ?thesis by simp
qed


section \<open>Invariants of the extractor\<close>

lemma wf_extract_int [wf_keep]: "wf_stream s \<Longrightarrow> wf_stream (snd (extract_int val s))"
proof (cases "good s")
  case False
  assume "wf_stream s"
  with False show ?thesis by (simp add: extract_int_not_good wf_stream_def)
next
  case True
  assume wf: "wf_stream s"
  show ?thesis
  proof (cases "dropWhile isspace (buf s) = []")
    case True
    then have "\<forall>c \<in> set (buf s). isspace c" by (simp add: dropWhile_Nil_iff)
    with \<open>good s\<close> wf show ?thesis by (simp add: extract_int_eof wf_stream_def)
  next
    case False
    obtain fld r where "accumulate (dropWhile isspace (buf s)) = (fld, r)"
      by (cases "accumulate (dropWhile isspace (buf s))")
    from extract_int_scan [OF \<open>good s\<close> False this, of val] wf False show ?thesis
      by (auto simp: wf_stream_def)
  qed
qed

lemma extract_int_suffix [eats]: "suffix (buf (snd (extract_int val s))) (buf s)"
proof (cases "good s \<and> dropWhile isspace (buf s) \<noteq> []")
  case False
  then show ?thesis
    by (cases "good s") (simp_all add: extract_int_not_good extract_int_eof dropWhile_Nil_iff)
next
  case True
  obtain fld r where acc: "accumulate (dropWhile isspace (buf s)) = (fld, r)"
    by (cases "accumulate (dropWhile isspace (buf s))")
  have "suffix r (dropWhile isspace (buf s))"
    using accumulate_suffix [of "dropWhile isspace (buf s)"] acc by simp
  then have "suffix r (buf s)"
    by (rule suffix_order.trans) (rule suffix_dropWhile)
  with extract_int_scan [OF _ _ acc, of val] True show ?thesis by simp
qed

lemma extract_int_past_end:
  assumes "live s" "\<forall>c \<in> set (buf s). isspace c"
  shows "extract_int val s = (val, s\<lparr>buf := [], eofbit := True, failbit := True\<rparr>)"
proof (cases "good s")
  case True
  from True assms(2) show ?thesis by (rule extract_int_eof)
next
  case False
  with assms(1) show ?thesis by (simp add: extract_int_not_good live_at_end)
qed

lemma extract_int_progress:
  assumes "\<not> fail (snd (extract_int val s))"
  shows "length (buf (snd (extract_int val s))) < length (buf s)"
proof -
  from assms have g: "good s"
    by (cases "good s") (simp_all add: extract_int_not_good fail_def)
  with assms obtain v r where ni: "next_int (buf s) = Some (v, r)"
    by (auto simp: fail_extract_int_iff)
  from extract_int_ok [OF g ni] next_int_consumes [OF ni] show ?thesis by simp
qed

lemma next_int_in_range: "next_int cs = Some (v, r) \<Longrightarrow> in_int_range v"
  by (auto simp: next_int_def split: prod.splits option.splits if_splits)

lemma word_of_int_eq_iff:
  assumes "in_int_range a" "in_int_range b"
  shows "(word_of_int a :: cxx_int) = word_of_int b \<longleftrightarrow> a = b"
  using sint_in_range [OF assms(1)] sint_in_range [OF assms(2)] by metis

section \<open>The contract of the extractor\<close>

text \<open>
  C8: \<^verbatim>\<open>stream >> result\<close> implements the reference \<open>next_int\<close>: on a stream in
  good state, when the reference finds an integer the extractor stores it
  without loss, leaves the stream at the rest of the input and does not fail;
  when the reference finds none the extractor fails.
\<close>

theorem extract_int_refines_next_int:
  assumes "good s"
  shows "case next_int (buf s) of
      Some (v, r) \<Rightarrow>
        extract_int val s = (Some (word_of_int v), s\<lparr>buf := r, eofbit := (r = [])\<rparr>) \<and>
        sint (word_of_int v :: cxx_int) = v
    | None \<Rightarrow> fail (snd (extract_int val s))"
proof (cases "next_int (buf s)")
  case None
  with fail_extract_int_iff [OF assms, of val] show ?thesis by simp
next
  case (Some p)
  obtain v r where p: "p = (v, r)" by (cases p)
  with Some have ni: "next_int (buf s) = Some (v, r)" by simp
  from extract_int_ok [OF assms ni, of val] sint_in_range [OF next_int_in_range [OF ni]] ni
  show ?thesis by simp
qed

theorem extract_int_refines_next_int_witness:
  "extract_int None (opened '' +17;'') = (Some 17, (opened '' +17;'')\<lparr>buf := '';''\<rparr>)
   \<and> sint (17 :: cxx_int) = 17"
  using extract_int_refines_next_int [of "opened '' +17;''" None]
  by (simp add: cxx_defs)

text \<open>
  The width of \<^verbatim>\<open>long\<close> does not show: for every range of \<^verbatim>\<open>long\<close> that
  includes the range of \<^verbatim>\<open>int\<close>, the \<^verbatim>\<open>int\<close> stored and the failure reported are
  those of the 64-bit \<^verbatim>\<open>long\<close> of the model.
\<close>

lemma long_width_irrelevant:
  assumes "lo \<le> INT_MIN" and "INT_MAX \<le> hi"
  shows "fst (narrow_int (got_val (num_get_signed lo hi cs))) =
      fst (narrow_int (got_val (num_get_long cs)))
    \<and> (got_fail (num_get_signed lo hi cs) \<or> snd (narrow_int (got_val (num_get_signed lo hi cs))))
      = (got_fail (num_get_long cs) \<or> snd (narrow_int (got_val (num_get_long cs))))"
proof -
  obtain fld r where acc: "accumulate cs = (fld, r)" by (cases "accumulate cs")
  show ?thesis
  proof (cases "field_value fld")
    case None
    with acc show ?thesis by (simp add: num_get_long_def num_get_signed_def)
  next
    case (Some v)
    have "LONG_MIN \<le> INT_MIN" "INT_MAX \<le> LONG_MAX" by (simp_all add: limits_defs)
    from narrow_long_irrelevant [OF assms acc Some] narrow_long_irrelevant [OF this acc Some]
    show ?thesis by (simp add: num_get_long_def)
  qed
qed

end
