(* ===== verification/Double_Rounding.thy ===== *)
theory Double_Rounding
  imports Testlib_Prelude "HOL-Library.Log_Nat"
begin

text \<open>
  The value of a \<^verbatim>\<open>double\<close> and the conversion of a decimal number to the nearest
  one, which is what \<^verbatim>\<open>strtod\<close> computes for \<^verbatim>\<open>stream >> result\<close> in
  \<^verbatim>\<open>InStream::readDouble\<close>. A finite IEEE 754 binary64 number is a sign, a
  mantissa below \<open>2\<^sup>5\<^sup>3\<close> and an exponent between \<open>-1074\<close> and \<open>971\<close>; its value
  is \<open>\<plusminus> mantissa \<times> 2\<^sup>e\<^sup>x\<^sup>p\<^sup>o\<^sup>n\<^sup>e\<^sup>n\<^sup>t\<close>. The conversion works on exact fractions of
  natural numbers, so it is executable, and rounds to nearest with ties to the
  even mantissa. The theory proves that the result is a \<^verbatim>\<open>double\<close>, that it is
  within half a unit in the last place of the exact value, and that numbers
  that are \<^verbatim>\<open>double\<close>s already are converted without error.
\<close>

section \<open>Values\<close>

record double =
  negative :: bool
  mantissa :: nat
  exponent :: int

definition valof :: "double \<Rightarrow> real" where
  "valof x = (if negative x then - 1 else 1) * real (mantissa x) * 2 powi exponent x"

definition is_double :: "double \<Rightarrow> bool" where
  "is_double x \<longleftrightarrow>
     mantissa x < 2 ^ 53 \<and> - 1074 \<le> exponent x \<and> exponent x \<le> 971 \<and>
     (2 ^ 52 \<le> mantissa x \<or> exponent x = - 1074)"

text \<open>
  The numbers of the precision of a \<^verbatim>\<open>double\<close>, with no largest exponent: what
  rounding to 53 bits can give before the range of the format is considered.
\<close>

definition in_precision :: "double \<Rightarrow> bool" where
  "in_precision x \<longleftrightarrow> mantissa x < 2 ^ 53 \<and> - 1074 \<le> exponent x"

definition DBL_MAX :: "bool \<Rightarrow> double" where
  "DBL_MAX neg = \<lparr>negative = neg, mantissa = 2 ^ 53 - 1, exponent = 971\<rparr>"

section \<open>Rounding a fraction\<close>

definition rne :: "nat \<Rightarrow> nat \<Rightarrow> nat" where
  "rne n d =
     (let q = n div d; r = n mod d in
      if 2 * r < d then q
      else if d < 2 * r then q + 1
      else if even q then q else q + 1)"

definition scaled :: "nat \<Rightarrow> nat \<Rightarrow> int \<Rightarrow> nat \<times> nat" where
  "scaled n d e = (if 0 \<le> e then (n, d * 2 ^ nat e) else (n * 2 ^ nat (- e), d))"

definition binary_exponent :: "nat \<Rightarrow> nat \<Rightarrow> int" where
  "binary_exponent n d =
     (let l = int (floorlog 2 n) - int (floorlog 2 d) in
      case scaled n d l of (a, b) \<Rightarrow> if b \<le> a then l else l - 1)"

definition round_to_double :: "nat \<Rightarrow> nat \<Rightarrow> (nat \<times> int) option" where
  "round_to_double n d =
     (if n = 0 then Some (0, - 1074)
      else
        let e = max (binary_exponent n d - 52) (- 1074);
            m = (case scaled n d e of (a, b) \<Rightarrow> rne a b)
        in if m = 2 ^ 53
           then (if 971 < e + 1 then None else Some (2 ^ 52, e + 1))
           else if 971 < e then None else Some (m, e))"

lemmas rounding_defs =
  valof_def is_double_def DBL_MAX_def rne_def scaled_def binary_exponent_def
  round_to_double_def

lemmas rounding_eval = rounding_defs compute_floorlog

lemma is_double_in_precision: "is_double x \<Longrightarrow> in_precision x"
  by (simp add: is_double_def in_precision_def)

section \<open>Nearest integer, ties to even\<close>

lemma rne_error:
  assumes "0 < d"
  shows "\<bar>real (rne n d) - real n / real d\<bar> \<le> 1 / 2"
proof -
  let ?q = "n div d" and ?r = "n mod d"
  have n: "real n = real ?q * real d + real ?r"
    by (metis div_mult_mod_eq of_nat_add of_nat_mult)
  have r: "real ?r < real d" using assms by simp
  have eq: "real n / real d = real ?q + real ?r / real d"
    using assms by (simp add: n add_divide_distrib)
  consider "2 * ?r < d" | "d < 2 * ?r" | "2 * ?r = d" by linarith
  then show ?thesis
  proof cases
    case 1
    then have "real ?r / real d \<le> 1 / 2" using assms by (simp add: field_simps)
    with 1 show ?thesis by (simp add: rne_def Let_def eq)
  next
    case 2
    then have "1 / 2 \<le> real ?r / real d" "real ?r / real d \<le> 1"
      using assms r by (simp_all add: field_simps)
    with 2 show ?thesis by (simp add: rne_def Let_def eq abs_if)
  next
    case 3
    then have "real ?r / real d = 1 / 2" using assms
      by (simp add: field_simps)
    with 3 show ?thesis by (simp add: rne_def Let_def eq)
  qed
qed

lemma rne_exact: "0 < d \<Longrightarrow> rne (a * d) d = a"
  by (simp add: rne_def)

lemma rne_ge: "0 < d \<Longrightarrow> a * d \<le> n \<Longrightarrow> a \<le> rne n d"
proof -
  assume "0 < d" "a * d \<le> n"
  then have "a \<le> n div d" by (simp add: less_eq_div_iff_mult_less_eq)
  then show ?thesis by (simp add: rne_def Let_def)
qed

lemma rne_le:
  assumes "0 < d" and "n \<le> b * d"
  shows "rne n d \<le> b"
proof (cases "n = b * d")
  case True
  with assms(1) show ?thesis by (simp add: rne_exact)
next
  case False
  with assms(2) have "n < b * d" by simp
  then have "n div d < b" using assms(1) by (simp add: div_less_iff_less_mult)
  then show ?thesis by (simp add: rne_def Let_def)
qed

lemma div_mod_cases:
  fixes n d :: nat
  obtains q r where "n = q * d + r" and "q = n div d" and "r = n mod d"
  by (rule that [of "n div d" "n mod d"]) simp_all

lemma rne_less_half:
  assumes "0 < d" and "2 * n < (2 * k - 1) * d"
  shows "rne n d < k"
proof -
  obtain q r where n: "n = q * d + r" and q: "q = n div d" and r: "r = n mod d"
    by (rule div_mod_cases)
  have k: "0 < k" using assms(2) by (cases k) simp_all
  then obtain j where j: "k = Suc j" by (cases k) simp_all
  from assms(2) have *: "2 * (q * d) + 2 * r < 2 * (j * d) + d" by (simp add: n j algebra_simps)
  then have "2 * (q * d) < (2 * j + 1) * d" by (simp add: algebra_simps)
  then have "(2 * q) * d < (2 * j + 1) * d" by (simp add: mult_ac)
  then have "2 * q < 2 * j + 1" by (rule mult_less_cancel2 [THEN iffD1, THEN conjunct2])
  then have "q \<le> j" by simp
  show ?thesis
  proof (cases "q = j")
    case True
    with * have "2 * r < d" by simp
    with True show ?thesis by (simp add: rne_def Let_def q [symmetric] r [symmetric] j)
  next
    case False
    with \<open>q \<le> j\<close> have "q + 1 \<le> j" by simp
    then show ?thesis by (simp add: rne_def Let_def q [symmetric] r [symmetric] j)
  qed
qed

lemma rne_ge_half:
  assumes "0 < d" and "(2 * k - 1) * d \<le> 2 * n" and "even k"
  shows "k \<le> rne n d"
proof -
  obtain q r where n: "n = q * d + r" and q: "q = n div d" and r: "r = n mod d"
    by (rule div_mod_cases)
  have rd: "r < d" using assms(1) by (simp add: r)
  show ?thesis
  proof (cases "k \<le> q")
    case True
    then show ?thesis by (simp add: rne_def Let_def q [symmetric] r [symmetric])
  next
    case False
    then obtain j where j: "k = Suc j" by (cases k) simp_all
    from assms(2) have *: "2 * (j * d) + d \<le> 2 * (q * d) + 2 * r"
      by (simp add: n j algebra_simps)
    with rd have "2 * (j * d) < 2 * (q * d) + d" by simp
    then have "(2 * j) * d < (2 * q + 1) * d" by (simp add: algebra_simps)
    then have "2 * j < 2 * q + 1" by (rule mult_less_cancel2 [THEN iffD1, THEN conjunct2])
    with False j have qj: "q = j" by simp
    with * have "d \<le> 2 * r" by simp
    moreover from assms(3) j qj have "odd q" by simp
    ultimately show ?thesis by (simp add: rne_def Let_def q [symmetric] r [symmetric] j qj)
  qed
qed

section \<open>Scaling by a power of two\<close>

lemma two_powi_pos [simp]: "0 < (2::real) powi k"
  by (simp add: power_int_def)

lemma two_powi_mono: "a \<le> b \<Longrightarrow> (2::real) powi a \<le> 2 powi b"
  by (rule power_int_increasing) simp_all

lemma two_powi_less_cancel: "(2::real) powi a \<le> x \<Longrightarrow> x < 2 powi b \<Longrightarrow> a < b"
  by (rule ccontr) (use two_powi_mono [of b a] in simp)

lemma two_powi_diff_nat [simp]: "(2::real) powi (a - int j) * 2 ^ j = 2 powi a"
  by (simp add: power_int_diff)

lemma scaled_ratio:
  assumes "0 < d" and "scaled n d e = (a, b)"
  shows "0 < b" and "real a / real b = real n / real d / 2 powi e"
proof -
  show "0 < b" using assms by (auto simp: scaled_def split: if_splits)
  show "real a / real b = real n / real d / 2 powi e"
  proof (cases "0 \<le> e")
    case True
    with assms(2) show ?thesis by (auto simp: scaled_def power_int_def)
  next
    case False
    with assms(2) show ?thesis
      by (auto simp: scaled_def power_int_def field_simps power_inverse)
  qed
qed

lemma scaled_le_iff:
  assumes "0 < d" and "scaled n d e = (a, b)"
  shows "k * b \<le> a \<longleftrightarrow> real k * 2 powi e \<le> real n / real d"
    and "a \<le> k * b \<longleftrightarrow> real n / real d \<le> real k * 2 powi e"
proof -
  note sc = scaled_ratio [OF assms]
  have 1: "k * b \<le> a \<longleftrightarrow> real k \<le> real a / real b"
    using sc(1) by (simp add: pos_le_divide_eq flip: of_nat_mult)
  show "k * b \<le> a \<longleftrightarrow> real k * 2 powi e \<le> real n / real d"
    unfolding 1 sc(2) by (rule pos_le_divide_eq) simp
  have 2: "a \<le> k * b \<longleftrightarrow> real a / real b \<le> real k"
    using sc(1) by (simp add: pos_divide_le_eq flip: of_nat_mult)
  show "a \<le> k * b \<longleftrightarrow> real n / real d \<le> real k * 2 powi e"
    unfolding 2 sc(2) by (rule pos_divide_le_eq) simp
qed

section \<open>The binary exponent of a fraction\<close>

lemma floorlog2_bounds:
  assumes "0 < n"
  shows "2 powi (int (floorlog 2 n) - 1) \<le> real n" and "real n < 2 powi int (floorlog 2 n)"
proof -
  from assms have pos: "0 < floorlog 2 n" by (simp add: floorlog_def)
  from floorlog_bounds [OF assms, of 2]
  have "2 ^ (floorlog 2 n - 1) \<le> n" "n < 2 ^ floorlog 2 n" by simp_all
  then have "real (2 ^ (floorlog 2 n - 1)) \<le> real n" "real n < real (2 ^ floorlog 2 n)"
    by (simp_all only: of_nat_le_iff of_nat_less_iff)
  with pos show "2 powi (int (floorlog 2 n) - 1) \<le> real n"
    and "real n < 2 powi int (floorlog 2 n)"
    by (simp_all add: power_int_def nat_diff_distrib')
qed

lemma binary_exponent_bounds:
  assumes "0 < n" and "0 < d"
  shows "2 powi binary_exponent n d \<le> real n / real d"
    and "real n / real d < 2 powi (binary_exponent n d + 1)"
proof -
  define F G where "F = int (floorlog 2 n)" and "G = int (floorlog 2 d)"
  define l where "l = F - G"
  obtain a b where sc: "scaled n d l = (a, b)" by (cases "scaled n d l")
  note fn = floorlog2_bounds [OF assms(1), folded F_def]
    and fd = floorlog2_bounds [OF assms(2), folded G_def]
  have d: "0 < real d" using assms(2) by simp
  have "real n / real d < 2 powi F / 2 powi (G - 1)"
    using fn(2) fd(1) d by (intro frac_less) simp_all
  also have "\<dots> = 2 powi (l + 1)"
    unfolding l_def by (subst power_int_diff [symmetric]) (simp_all add: algebra_simps)
  finally have up: "real n / real d < 2 powi (l + 1)" .
  have "2 powi (l - 1) = (2::real) powi (F - 1) / 2 powi G"
    unfolding l_def by (subst power_int_diff [symmetric]) (simp_all add: algebra_simps)
  also have "\<dots> \<le> real n / real d"
    using fn(1) fd(2) d by (intro frac_le) simp_all
  finally have low: "2 powi (l - 1) \<le> real n / real d" .
  have test: "b \<le> a \<longleftrightarrow> 2 powi l \<le> real n / real d"
    using scaled_le_iff(1) [OF assms(2) sc, of 1] by simp
  have be: "binary_exponent n d = (if b \<le> a then l else l - 1)"
    by (simp add: binary_exponent_def l_def F_def G_def sc [unfolded l_def F_def G_def])
  show "2 powi binary_exponent n d \<le> real n / real d"
    using low test by (simp add: be)
  show "real n / real d < 2 powi (binary_exponent n d + 1)"
    using up test by (simp add: be not_le)
qed

lemma binary_exponent_unique:
  assumes "0 < n" and "0 < d"
    and "2 powi l \<le> real n / real d" and "real n / real d < 2 powi (l + 1)"
  shows "binary_exponent n d = l"
proof -
  note be = binary_exponent_bounds [OF assms(1,2)]
  from two_powi_less_cancel [OF be(1) assms(4)] two_powi_less_cancel [OF assms(3) be(2)]
  show ?thesis by simp
qed

section \<open>The rounded mantissa\<close>

text \<open>
  The exponent the conversion rounds at, and the mantissa it gets there,
  before the carry into the next binade and the check for overflow.
\<close>

lemma rounded_mantissa:
  assumes "0 < n" and "0 < d"
    and "e = max (binary_exponent n d - 52) (- 1074)" and "scaled n d e = (a, b)"
  shows "rne a b \<le> 2 ^ 53"
    and "2 ^ 52 \<le> rne a b \<or> e = - 1074"
    and "\<bar>real (rne a b) * 2 powi e - real n / real d\<bar> \<le> 2 powi (e - 1)"
proof -
  define x where "x = real n / real d"
  note be = binary_exponent_bounds [OF assms(1,2), folded x_def]
  note sc = scaled_ratio [OF assms(2,4), folded x_def]
  have "x < 2 powi (binary_exponent n d + 1)" by (rule be(2))
  also have "\<dots> \<le> 2 powi (e + 53)" using assms(3) by (intro two_powi_mono) simp
  also have "\<dots> = 2 ^ 53 * 2 powi e" by (simp add: power_int_add)
  finally have "x \<le> real (2 ^ 53) * 2 powi e" by simp
  then have "a \<le> 2 ^ 53 * b"
    using scaled_le_iff(2) [OF assms(2,4), of "2 ^ 53"] by (simp add: x_def)
  with sc(1) show "rne a b \<le> 2 ^ 53" by (rule rne_le)
  show "2 ^ 52 \<le> rne a b \<or> e = - 1074"
  proof (cases "e = - 1074")
    case False
    with assms(3) have "2 powi (e + 52) \<le> x" using be(1) by (simp add: max_def split: if_splits)
    then have "real (2 ^ 52) * 2 powi e \<le> x" by (simp add: power_int_add)
    then have "2 ^ 52 * b \<le> a"
      using scaled_le_iff(1) [OF assms(2,4), of "2 ^ 52"] by (simp add: x_def)
    with sc(1) show ?thesis by (simp add: rne_ge)
  qed simp
  have "real (rne a b) * 2 powi e - x = (real (rne a b) - x / 2 powi e) * 2 powi e"
    by (simp add: left_diff_distrib)
  then have "\<bar>real (rne a b) * 2 powi e - x\<bar> = \<bar>real (rne a b) - x / 2 powi e\<bar> * 2 powi e"
    by (simp add: abs_mult)
  also have "\<dots> \<le> 1 / 2 * 2 powi e"
    using rne_error [OF sc(1), of a] by (intro mult_right_mono) (simp_all add: sc(2))
  also have "\<dots> = 2 powi (e - 1)" by (simp add: power_int_diff)
  finally show "\<bar>real (rne a b) * 2 powi e - real n / real d\<bar> \<le> 2 powi (e - 1)"
    by (simp add: x_def)
qed

section \<open>The conversion\<close>

lemma round_to_double_zero [simp]: "round_to_double 0 d = Some (0, - 1074)"
  by (simp add: round_to_double_def)

lemma round_to_double_unfold:
  assumes "0 < n" and "e = max (binary_exponent n d - 52) (- 1074)" and "scaled n d e = (a, b)"
  shows "round_to_double n d =
    (if rne a b = 2 ^ 53 then (if 971 < e + 1 then None else Some (2 ^ 52, e + 1))
     else if 971 < e then None else Some (rne a b, e))"
proof -
  from assms(1) have n: "(n = 0) = False" by simp
  show ?thesis
    by (simp only: round_to_double_def Let_def assms(2) [symmetric] assms(3) prod.case n if_False)
qed

lemma round_to_double_Some:
  assumes "0 < d" and "round_to_double n d = Some (m, e)"
  shows "m < 2 ^ 53" and "- 1074 \<le> e" and "e \<le> 971" and "2 ^ 52 \<le> m \<or> e = - 1074"
    and "\<bar>real m * 2 powi e - real n / real d\<bar> \<le> 2 powi (e - 1)"
proof -
  have "m < 2 ^ 53 \<and> - 1074 \<le> e \<and> e \<le> 971 \<and> (2 ^ 52 \<le> m \<or> e = - 1074) \<and>
    \<bar>real m * 2 powi e - real n / real d\<bar> \<le> 2 powi (e - 1)"
  proof (cases "n = 0")
    case True
    with assms(2) show ?thesis by simp
  next
    case False
    define e0 where "e0 = max (binary_exponent n d - 52) (- 1074)"
    obtain a b where sc: "scaled n d e0 = (a, b)" by (cases "scaled n d e0")
    from False have n: "0 < n" by simp
    note rm = rounded_mantissa [OF n assms(1) e0_def sc]
    have e0: "- 1074 \<le> e0" by (simp add: e0_def)
    from assms(2) have res: "(if rne a b = 2 ^ 53
        then (if 971 < e0 + 1 then None else Some (2 ^ 52, e0 + 1))
        else if 971 < e0 then None else Some (rne a b, e0)) = Some (m, e)"
      unfolding round_to_double_unfold [OF n e0_def sc] .
    show ?thesis
    proof (cases "rne a b = 2 ^ 53")
      case True
      with res have me: "m = 2 ^ 52" "e = e0 + 1" "e0 + 1 \<le> 971" by (simp_all split: if_splits)
      have "real m * 2 powi e = real (rne a b) * 2 powi e0"
        by (simp add: me True power_int_add)
      moreover have "(2::real) powi (e0 - 1) \<le> 2 powi (e - 1)"
        by (intro two_powi_mono) (simp add: me)
      ultimately show ?thesis using rm(3) e0 me by simp
    next
      case False
      with res have me: "m = rne a b" "e = e0" "e0 \<le> 971" by (simp_all split: if_splits)
      with rm False e0 show ?thesis by simp
    qed
  qed
  then show "m < 2 ^ 53" and "- 1074 \<le> e" and "e \<le> 971" and "2 ^ 52 \<le> m \<or> e = - 1074"
    and "\<bar>real m * 2 powi e - real n / real d\<bar> \<le> 2 powi (e - 1)"
    by simp_all
qed

section \<open>Overflow\<close>

text \<open>
  The conversion overflows exactly from the midpoint between the largest
  \<^verbatim>\<open>double\<close> and \<open>2\<^sup>1\<^sup>0\<^sup>2\<^sup>4\<close> on: that midpoint is a tie, and the even neighbour is
  the one out of range.
\<close>

lemma double_range_powers:
  fixes p :: real
  assumes "p = 2 powi 970"
  shows "2 powi 971 = 2 * p" and "2 powi 1023 = 2 ^ 53 * p" and "2 powi 1024 = 2 ^ 54 * p"
  unfolding assms by simp_all

lemma overflow_tie:
  fixes p x :: real
  assumes "0 < b" and "0 < p" and "real a / real b = x / (2 * p)"
  shows "2 * a < (2 * 2 ^ 53 - 1) * b \<longleftrightarrow> x < (2 ^ 54 - 1) * p"
proof -
  have "2 * a < (2 * 2 ^ 53 - 1) * b \<longleftrightarrow> \<not> (2 ^ 54 - 1) * b \<le> 2 * a" by auto
  also have "\<dots> \<longleftrightarrow> \<not> real ((2 ^ 54 - 1) * b) \<le> real (2 * a)"
    by (simp only: of_nat_le_iff)
  also have "\<dots> \<longleftrightarrow> \<not> real (2 ^ 54 - 1) * real b \<le> 2 * real a"
    by (simp only: of_nat_mult of_nat_numeral)
  also have "\<dots> \<longleftrightarrow> \<not> real (2 ^ 54 - 1) / 2 \<le> real a / real b"
    using assms(1) by (simp add: field_simps)
  also have "real (2 ^ 54 - 1) / 2 \<le> real a / real b \<longleftrightarrow> (2 ^ 54 - 1) * p \<le> x"
    unfolding assms(3) using assms(2) by (simp add: field_simps)
  finally show ?thesis by auto
qed

lemma round_to_double_None_iff:
  assumes "0 < n" and "0 < d"
  shows "round_to_double n d = None \<longleftrightarrow> (2 ^ 54 - 1) * 2 powi 970 \<le> real n / real d"
proof -
  define x where "x = real n / real d"
  define p :: real where "p = 2 powi 970"
  define e where "e = max (binary_exponent n d - 52) (- 1074)"
  obtain a b where sc: "scaled n d e = (a, b)" by (cases "scaled n d e")
  note pw = double_range_powers [OF p_def]
  have p: "0 < p" by (simp add: p_def)
  note be = binary_exponent_bounds [OF assms, folded x_def]
  note un = round_to_double_unfold [OF assms(1) e_def sc]
  note rm = rounded_mantissa [OF assms e_def sc]
  note b = scaled_ratio(1) [OF assms(2) sc]
  have half: "2 * a < (2 * 2 ^ 53 - 1) * b \<longleftrightarrow> x < (2 ^ 54 - 1) * p" if "e = 971"
    using b p scaled_ratio(2) [OF assms(2) sc]
    by (intro overflow_tie) (simp_all only: that pw x_def)
  have thr: "2 ^ 53 * p \<le> (2 ^ 54 - 1) * p" "(2 ^ 54 - 1) * p \<le> 2 ^ 54 * p"
    using p by simp_all
  consider "e < 971" | "e = 971" | "971 < e" by linarith
  then have "round_to_double n d = None \<longleftrightarrow> (2 ^ 54 - 1) * p \<le> x"
  proof cases
    case 1
    then have "binary_exponent n d + 1 \<le> 1023" by (simp add: e_def)
    then have "(2::real) powi (binary_exponent n d + 1) \<le> 2 powi 1023" by (rule two_powi_mono)
    with be(2) thr(1) have "x < (2 ^ 54 - 1) * p" by (simp only: pw)
    with 1 show ?thesis by (simp add: un)
  next
    case 2
    show ?thesis
    proof (cases "2 * a < (2 * 2 ^ 53 - 1) * b")
      case True
      from rne_less_half [OF b True] half [OF 2] True 2 show ?thesis by (simp add: un)
    next
      case False
      then have "(2 * 2 ^ 53 - 1) * b \<le> 2 * a" by simp
      from rne_ge_half [OF b this] rm(1) have "rne a b = 2 ^ 53" by simp
      with half [OF 2] False 2 show ?thesis by (simp add: un)
    qed
  next
    case 3
    then have "1024 \<le> binary_exponent n d" by (simp add: e_def)
    then have "(2::real) powi 1024 \<le> 2 powi binary_exponent n d" by (rule two_powi_mono)
    with be(1) thr(2) have "(2 ^ 54 - 1) * p \<le> x" by (simp only: pw)
    with 3 show ?thesis by (simp add: un)
  qed
  then show ?thesis by (simp only: p_def x_def)
qed

section \<open>Numbers that are doubles already\<close>

lemma round_to_double_exact:
  assumes "0 < d" and "m < 2 ^ 53" and "- 1074 \<le> e" and "e \<le> 971"
    and "2 ^ 52 \<le> m \<or> e = - 1074" and "real n / real d = real m * 2 powi e"
  shows "round_to_double n d = Some (m, e)"
proof (cases "m = 0")
  case True
  with assms(1,5,6) show ?thesis by simp
next
  case False
  with assms(1,6) have n: "0 < n" by (cases n) simp_all
  define x where "x = real n / real d"
  define e0 where "e0 = max (binary_exponent n d - 52) (- 1074)"
  have x: "x = real m * 2 powi e" by (simp add: x_def assms(6))
  have up: "x < 2 powi (e + 53)"
  proof -
    from assms(2) have "real m < real (2 ^ 53)" by (simp only: of_nat_less_iff)
    then have "real m * 2 powi e < 2 ^ 53 * 2 powi e" by simp
    then show ?thesis by (simp add: x power_int_add)
  qed
  have e0: "e0 = e"
  proof (cases "2 ^ 52 \<le> m")
    case True
    then have "real (2 ^ 52) \<le> real m" by (simp only: of_nat_le_iff)
    then have "2 ^ 52 * 2 powi e \<le> real m * 2 powi e" by simp
    then have "2 powi (e + 52) \<le> x" by (simp add: x power_int_add)
    from binary_exponent_unique [OF n assms(1) this [unfolded x_def]] up assms(3)
    show ?thesis by (simp add: e0_def x_def add.commute)
  next
    case small: False
    with assms(5) have e: "e = - 1074" by simp
    from small have "real m < real (2 ^ 52)" by (simp only: of_nat_less_iff)
    then have "real m * 2 powi e < 2 ^ 52 * 2 powi e" by simp
    then have "x < 2 powi (e + 52)" by (simp add: x power_int_add)
    from two_powi_less_cancel [OF binary_exponent_bounds(1) [OF n assms(1)] this [unfolded x_def]]
    show ?thesis by (simp add: e0_def e)
  qed
  obtain a b where sc: "scaled n d e0 = (a, b)" by (cases "scaled n d e0")
  note r = scaled_ratio [OF assms(1) sc]
  from r have "real a = real (m * b)" by (simp add: assms(6) e0 field_simps)
  then have "a = m * b" by (simp only: of_nat_eq_iff)
  with r(1) have "rne a b = m" by (simp add: rne_exact)
  with assms(2,4) show ?thesis
    by (simp add: round_to_double_unfold [OF n e0_def sc] e0)
qed

lemma round_to_double_nat:
  assumes "0 < k" and "k < 2 ^ 53"
  obtains m e where "round_to_double k 1 = Some (m, e)" and "real m * 2 powi e = real k"
proof -
  define b where "b = binary_exponent k 1"
  define j where "j = nat (52 - b)"
  note be = binary_exponent_bounds [OF assms(1), of 1, folded b_def, simplified]
  from assms(2) have "real k < real (2 ^ 53)" by (simp only: of_nat_less_iff)
  then have "real k < 2 powi 53" by simp
  with be(1) have "b < 53" by (rule two_powi_less_cancel)
  then have b: "b = 52 - int j" by (simp add: j_def)
  from assms(1) have "2 powi 0 \<le> real k" by simp
  from two_powi_less_cancel [OF this be(2)] have j: "j \<le> 52" by (simp add: j_def)
  have val: "real (k * 2 ^ j) * 2 powi (- int j) = real k"
    by (simp add: power_int_minus)
  have "real k * 2 ^ j < 2 powi (b + 1) * 2 powi int j" using be(2) by simp
  also have "\<dots> = 2 powi 53" by (simp add: b)
  finally have "real (k * 2 ^ j) < real (2 ^ 53)" by simp
  then have up: "k * 2 ^ j < 2 ^ 53" by (simp only: of_nat_less_iff)
  have "2 powi 52 = 2 powi b * (2::real) powi int j" by (simp add: b)
  also have "\<dots> \<le> real k * 2 powi int j" using be(1) by (intro mult_right_mono) simp_all
  finally have "real (2 ^ 52) \<le> real (k * 2 ^ j)" by simp
  then have low: "2 ^ 52 \<le> k * 2 ^ j" by (simp only: of_nat_le_iff)
  have "round_to_double k 1 = Some (k * 2 ^ j, - int j)"
    using low val j by (intro round_to_double_exact up) simp_all
  with val that show thesis by blast
qed

section \<open>The nearest of all doubles\<close>

text \<open>
  Rounding to nearest, stated without the conversion: no number of the format
  is closer to the fraction than the one the conversion returns. The
  competitors are all pairs of a mantissa below \<open>2\<^sup>5\<^sup>3\<close> and an exponent of at
  least \<open>-1074\<close> that are normalised or subnormal.
\<close>

lemma rne_nearest:
  assumes "0 < d"
  shows "\<bar>real (rne n d) - real n / real d\<bar> \<le> \<bar>real k - real n / real d\<bar>"
proof (cases "k = rne n d")
  case False
  then consider "k + 1 \<le> rne n d" | "rne n d + 1 \<le> k" by linarith
  then have "1 \<le> \<bar>real k - real (rne n d)\<bar>"
  proof cases
    case 1
    then have "real (k + 1) \<le> real (rne n d)" by (simp only: of_nat_le_iff)
    then show ?thesis by simp
  next
    case 2
    then have "real (rne n d + 1) \<le> real k" by (simp only: of_nat_le_iff)
    then show ?thesis by simp
  qed
  with rne_error [OF assms, of n] show ?thesis by linarith
qed simp

lemma round_to_double_value:
  assumes "0 < n" and "round_to_double n d = Some (m, e)"
    and "e0 = max (binary_exponent n d - 52) (- 1074)" and "scaled n d e0 = (a, b)"
  shows "real m * 2 powi e = real (rne a b) * 2 powi e0"
  using assms(2) unfolding round_to_double_unfold [OF assms(1,3,4)]
  by (auto split: if_splits simp: power_int_add)

text \<open>
  The rounded mantissa against a number \<open>m' \<times> 2\<^sup>k\<close> on the same scale: when
  \<open>k\<close> is not negative this is an integer; when it is negative the rounding
  was not clamped, the scaled value is at least \<open>2\<^sup>5\<^sup>2\<close> and the other number is
  below it.
\<close>

lemma rne_nearest_scaled:
  assumes "0 < b" and "m' < 2 ^ 53" and "k < 0 \<Longrightarrow> 2 ^ 52 \<le> real a / real b"
  shows "\<bar>real (rne a b) - real a / real b\<bar> \<le> \<bar>real m' * 2 powi k - real a / real b\<bar>"
proof (cases "0 \<le> k")
  case True
  then have "real m' * 2 powi k = real (m' * 2 ^ nat k)" by (simp add: power_int_def)
  then show ?thesis by (simp only: rne_nearest [OF assms(1)])
next
  case False
  then have "(2::real) powi k \<le> 2 powi (- 1)" by (intro two_powi_mono) simp
  then have "real m' * 2 powi k \<le> real m' * (1 / 2)"
    by (intro mult_left_mono) simp_all
  moreover from assms(2) have "real m' \<le> 2 ^ 53 - 1"
    using of_nat_le_iff [of m' "2 ^ 53 - 1", where ?'a = real] by simp
  ultimately have "real m' * 2 powi k \<le> 2 ^ 52 - 1 / 2" by simp
  moreover from rne_nearest [OF assms(1), of a "2 ^ 52"]
  have "\<bar>real (rne a b) - real a / real b\<bar> \<le> \<bar>2 ^ 52 - real a / real b\<bar>" by simp
  ultimately show ?thesis using assms(3) False by linarith
qed

lemma round_to_double_closest:
  assumes "0 < d" and "round_to_double n d = Some (m, e)" and "m' < 2 ^ 53" and "- 1074 \<le> e'"
  shows "\<bar>real m * 2 powi e - real n / real d\<bar> \<le> \<bar>real m' * 2 powi e' - real n / real d\<bar>"
proof (cases "n = 0")
  case True
  with assms(2) show ?thesis by simp
next
  case False
  then have n: "0 < n" by simp
  define e0 where "e0 = max (binary_exponent n d - 52) (- 1074)"
  obtain a b where sc: "scaled n d e0 = (a, b)" by (cases "scaled n d e0")
  define u where "u = real a / real b"
  define y where "y = real m' * 2 powi (e' - e0)"
  note ratio = scaled_ratio [OF assms(1) sc]
  have t: "real n / real d = u * 2 powi e0" by (simp add: u_def ratio(2))
  have v: "real m * 2 powi e = real (rne a b) * 2 powi e0"
    using n assms(2) e0_def sc by (rule round_to_double_value)
  have y: "real m' * 2 powi e' = y * 2 powi e0"
    by (simp add: y_def power_int_diff)
  have "2 ^ 52 \<le> u" if "e' - e0 < 0"
  proof -
    from that assms(4) have e0: "e0 = binary_exponent n d - 52" by (simp add: e0_def)
    have "2 powi (e0 + 52) \<le> real n / real d"
      using binary_exponent_bounds(1) [OF n assms(1)] by (simp add: e0)
    then show ?thesis by (simp add: t power_int_add)
  qed
  then have near: "\<bar>real (rne a b) - u\<bar> \<le> \<bar>y - u\<bar>"
    unfolding u_def y_def using ratio(1) assms(3) by (intro rne_nearest_scaled)
  have "\<bar>real m * 2 powi e - real n / real d\<bar> = \<bar>real (rne a b) - u\<bar> * 2 powi e0"
    by (simp add: v t abs_mult flip: left_diff_distrib)
  also have "\<dots> \<le> \<bar>y - u\<bar> * 2 powi e0" using near by (intro mult_right_mono) simp_all
  also have "\<dots> = \<bar>real m' * 2 powi e' - real n / real d\<bar>"
    by (simp add: y t abs_mult flip: left_diff_distrib)
  finally show ?thesis .
qed

end
