(* ===== verification/Num_Get_Float.thy ===== *)
theory Num_Get_Float
  imports Num_Get Double_Rounding
begin

text \<open>
  \<^verbatim>\<open>stream >> result\<close> for a \<^verbatim>\<open>double result\<close>, the call in
  \<^verbatim>\<open>InStream::readDouble\<close>: the sentry, then \<^verbatim>\<open>num_get\<close> for a \<^verbatim>\<open>double\<close>. Stage 2
  accumulates the characters of a floating-point field as the GNU library
  does in the classic locale: an optional sign, the leading zeros as one
  \<^verbatim>\<open>0\<close>, then digits, at most one decimal point before the exponent, and
  an \<^verbatim>\<open>e\<close> or \<^verbatim>\<open>E\<close> (stored as \<^verbatim>\<open>e\<close>) once a digit has been seen, with an
  optional sign after it. Stage 3 hands the field to \<^verbatim>\<open>strtod\<close> and fails
  unless \<^verbatim>\<open>strtod\<close> takes all of it; the value is the \<^verbatim>\<open>double\<close> nearest to the
  decimal number, an infinite result is stored as the largest finite
  \<^verbatim>\<open>double\<close> and is a failure, an underflow is not
  ([facet.num.get.virtuals], LWG 23). \<open>float_literal\<close> is \<^verbatim>\<open>strtod\<close> on the
  fields stage 2 can produce, which hold no letter but \<^verbatim>\<open>e\<close>.
\<close>

section \<open>Stage 2: the characters of the field\<close>

fun float_chars :: "bool \<Rightarrow> bool \<Rightarrow> bool \<Rightarrow> string \<Rightarrow> string \<times> string" where
  "float_chars dec sci man [] = ([], [])"
| "float_chars dec sci man (c # cs) =
     (if isdigit c then apfst ((#) c) (float_chars dec sci True cs)
      else if c = CHR ''.'' \<and> \<not> dec \<and> \<not> sci
      then apfst ((#) c) (float_chars True sci man cs)
      else if (c = CHR ''e'' \<or> c = CHR ''E'') \<and> \<not> sci \<and> man
      then (case cs of
              [] \<Rightarrow> (''e'', [])
            | s # r \<Rightarrow>
                if s = CHR ''+'' \<or> s = CHR ''-''
                then apfst (\<lambda>f. CHR ''e'' # s # f) (float_chars dec True man r)
                else apfst ((#) CHR ''e'') (float_chars dec True man cs))
      else ([], c # cs))"

definition scan_float :: "string \<Rightarrow> string \<times> string" where
  "scan_float cs =
     (case take_sign cs of
        (sg, r) \<Rightarrow>
          let zs = takeWhile (\<lambda>c. c = CHR ''0'') r in
          (case float_chars False False (zs \<noteq> []) (dropWhile (\<lambda>c. c = CHR ''0'') r) of
             (f, r') \<Rightarrow> (sg @ (if zs = [] then [] else ''0'') @ f, r')))"

section \<open>Stage 3: the value of the field\<close>

definition exponent_of :: "string \<Rightarrow> int option" where
  "exponent_of x =
     (case x of
        [] \<Rightarrow> Some 0
      | c # r \<Rightarrow> if c = CHR ''e'' \<or> c = CHR ''E'' then field_value r else None)"

text \<open>
  The sign and the exact value of a field, as a fraction of naturals: the
  digits \<open>N\<close> before and after the point, times ten to the exponent less the
  number of digits after the point. \<open>None\<close> when \<^verbatim>\<open>strtod\<close> would not take the
  whole field.
\<close>

definition float_literal :: "string \<Rightarrow> (bool \<times> nat \<times> nat) option" where
  "float_literal fld =
     (case take_sign fld of
        (sg, r) \<Rightarrow>
          let ip = takeWhile isdigit r;
              r1 = dropWhile isdigit r;
              dot = (r1 \<noteq> [] \<and> hd r1 = CHR ''.'');
              fp = (if dot then takeWhile isdigit (tl r1) else []);
              x = (if dot then dropWhile isdigit (tl r1) else r1)
          in if ip = [] \<and> fp = [] then None
             else (case exponent_of x of
                     None \<Rightarrow> None
                   | Some e \<Rightarrow>
                       let E = e - int (length fp); N = dec_val (ip @ fp) in
                       Some (sg = ''-'',
                             if 0 \<le> E then (N * 10 ^ nat E, 1) else (N, 10 ^ nat (- E)))))"

definition convert_to_v :: "string \<Rightarrow> double \<times> bool" where
  "convert_to_v fld =
     (case float_literal fld of
        None \<Rightarrow> (\<lparr>negative = False, mantissa = 0, exponent = - 1074\<rparr>, True)
      | Some (neg, n, d) \<Rightarrow>
          (case round_to_double n d of
             None \<Rightarrow> (DBL_MAX neg, True)
           | Some (m, e) \<Rightarrow> (\<lparr>negative = neg, mantissa = m, exponent = e\<rparr>, False)))"

section \<open>The extractor\<close>

definition extract_double :: "double option \<Rightarrow> ifstream \<Rightarrow> double option \<times> ifstream" where
  "extract_double val s =
     (case sentry False s of
        (ok, s1) \<Rightarrow>
          if \<not> ok then (val, s1)
          else (case scan_float (buf s1) of
                  (fld, r) \<Rightarrow>
                    (case convert_to_v fld of
                       (v, bad) \<Rightarrow>
                         (Some v,
                          s1\<lparr>buf := r,
                             eofbit := eofbit s1 \<or> r = [],
                             failbit := failbit s1 \<or> bad\<rparr>))))"

text \<open>
  The number a field denotes, and the reference the extractor is compared
  with: skip whitespace, take the field, and succeed with the nearest
  \<^verbatim>\<open>double\<close> and the rest when the field is a literal that does not overflow.
\<close>

definition exact_value :: "bool \<times> nat \<times> nat \<Rightarrow> real" where
  "exact_value q = (case q of (neg, n, d) \<Rightarrow> (if neg then - 1 else 1) * (real n / real d))"

definition next_double :: "string \<Rightarrow> (double \<times> string) option" where
  "next_double cs =
     (case scan_float (dropWhile isspace cs) of
        (fld, r) \<Rightarrow>
          (case float_literal fld of
             None \<Rightarrow> None
           | Some (neg, n, d) \<Rightarrow>
               map_option (\<lambda>(m, e). (\<lparr>negative = neg, mantissa = m, exponent = e\<rparr>, r))
                 (round_to_double n d)))"

lemmas num_get_float_defs =
  scan_float_def exponent_of_def float_literal_def convert_to_v_def extract_double_def
  exact_value_def next_double_def

declare num_get_float_defs [cxx_defs]

section \<open>The field is no longer than what was read\<close>

lemma float_chars_length:
  "length (fst (float_chars dec sci man cs)) + length (snd (float_chars dec sci man cs)) =
   length cs"
  by (induction dec sci man cs rule: float_chars.induct) (auto split: list.splits)

lemma float_chars_suffix: "suffix (snd (float_chars dec sci man cs)) cs"
  by (induction dec sci man cs rule: float_chars.induct)
     (auto simp: suffix_Cons split: list.splits)

lemma take_sign_length: "length (fst (take_sign cs)) + length (snd (take_sign cs)) = length cs"
  by (cases cs) auto

lemma take_sign_suffix: "suffix (snd (take_sign cs)) cs"
  by (cases cs) (auto simp: suffix_Cons)

lemma scan_float_suffix: "suffix (snd (scan_float cs)) cs"
proof -
  obtain sg r where ts: "take_sign cs = (sg, r)" by (cases "take_sign cs")
  let ?r = "dropWhile (\<lambda>c. c = CHR ''0'') r"
  have "suffix (snd (float_chars False False (takeWhile (\<lambda>c. c = CHR ''0'') r \<noteq> []) ?r)) ?r"
    by (rule float_chars_suffix)
  also have "suffix ?r r" by (rule suffix_dropWhile)
  also have "suffix r cs" using take_sign_suffix [of cs] ts by simp
  finally show ?thesis by (simp add: scan_float_def ts case_prod_beta Let_def)
qed

lemma scan_float_length:
  "length (fst (scan_float cs)) + length (snd (scan_float cs)) \<le> length cs"
proof -
  obtain sg r where ts: "take_sign cs = (sg, r)" by (cases "take_sign cs")
  let ?z = "takeWhile (\<lambda>c. c = CHR ''0'') r" and ?r = "dropWhile (\<lambda>c. c = CHR ''0'') r"
  have "length ?z + length ?r = length r"
    by (metis length_append takeWhile_dropWhile_id)
  moreover have "length sg + length r = length cs" using take_sign_length [of cs] ts by simp
  moreover have "length (if ?z = [] then [] else ''0'') \<le> length ?z"
    by (cases ?z) simp_all
  ultimately show ?thesis
    using float_chars_length [of False False "?z \<noteq> []" ?r]
    by (simp add: scan_float_def ts case_prod_beta Let_def)
qed

section \<open>The stored value\<close>

lemma float_literal_Nil [simp]: "float_literal [] = None"
  by (simp add: float_literal_def)

lemma float_literal_denominator:
  assumes "float_literal fld = Some (neg, n, d)"
  shows "0 < d"
  using assms
  by (auto simp: float_literal_def Let_def split: prod.splits if_splits option.splits)

lemma is_double_DBL_MAX [simp]: "is_double (DBL_MAX neg)"
  by (simp add: is_double_def DBL_MAX_def)

lemma is_double_round:
  assumes "0 < d" and "round_to_double n d = Some (m, e)"
  shows "is_double \<lparr>negative = neg, mantissa = m, exponent = e\<rparr>"
  using round_to_double_Some [OF assms] by (simp add: is_double_def)

lemma convert_to_v_cases:
  obtains (malformed) "float_literal fld = None"
      "convert_to_v fld = (\<lparr>negative = False, mantissa = 0, exponent = - 1074\<rparr>, True)"
    | (overflow) neg n d where "float_literal fld = Some (neg, n, d)" "0 < d"
      "round_to_double n d = None" "convert_to_v fld = (DBL_MAX neg, True)"
    | (rounded) neg n d m e where "float_literal fld = Some (neg, n, d)" "0 < d"
      "round_to_double n d = Some (m, e)"
      "convert_to_v fld = (\<lparr>negative = neg, mantissa = m, exponent = e\<rparr>, False)"
proof (cases "float_literal fld")
  case None
  then show ?thesis by (intro malformed) (simp_all add: convert_to_v_def)
next
  case (Some q)
  obtain neg n d where q: "q = (neg, n, d)" by (cases q)
  note lit = Some [unfolded q]
  show ?thesis
  proof (cases "round_to_double n d")
    case None
    with lit show ?thesis
      by (intro overflow [of neg n d]) (simp_all add: convert_to_v_def float_literal_denominator)
  next
    case (Some p)
    with lit show ?thesis
      by (cases p; intro rounded [of neg n d "fst p" "snd p"])
         (simp_all add: convert_to_v_def float_literal_denominator)
  qed
qed

lemma is_double_convert_to_v: "is_double (fst (convert_to_v fld))"
  by (cases fld rule: convert_to_v_cases) (simp_all add: is_double_round, simp add: is_double_def)

lemma valof_rounded:
  assumes "0 < d" and "round_to_double n d = Some (m, e)"
  shows "\<bar>valof \<lparr>negative = neg, mantissa = m, exponent = e\<rparr> - exact_value (neg, n, d)\<bar>
    \<le> 2 powi (e - 1)"
proof -
  let ?x = "real m * 2 powi e" and ?y = "real n / real d"
  have "\<bar>- ?x - - ?y\<bar> = \<bar>?x - ?y\<bar>" by simp
  with round_to_double_Some(5) [OF assms] show ?thesis
    by (simp add: valof_def exact_value_def)
qed

lemma valof_closest:
  assumes "0 < d" and "round_to_double n d = Some (m, e)" and "in_precision y"
  shows "\<bar>valof \<lparr>negative = neg, mantissa = m, exponent = e\<rparr> - exact_value (neg, n, d)\<bar>
    \<le> \<bar>valof y - exact_value (neg, n, d)\<bar>"
proof -
  define a b t where "a = real m * 2 powi e" and "b = real (mantissa y) * 2 powi exponent y"
    and "t = real n / real d"
  from assms(3) have 1: "\<bar>a - t\<bar> \<le> \<bar>b - t\<bar>"
    unfolding a_def b_def t_def
    by (intro round_to_double_closest [OF assms(1,2)]) (simp_all add: in_precision_def)
  have "\<bar>a - t\<bar> \<le> \<bar>real 0 * 2 powi (- 1074) - t\<bar>"
    unfolding a_def t_def by (intro round_to_double_closest [OF assms(1,2)]) simp_all
  then have 2: "\<bar>a - t\<bar> \<le> \<bar>t\<bar>" by simp
  have 3: "0 \<le> b" "0 \<le> t" by (simp_all add: b_def t_def)
  have x: "valof \<lparr>negative = neg, mantissa = m, exponent = e\<rparr> = (if neg then - a else a)"
    and y: "valof y = (if negative y then - b else b)"
    and q: "exact_value (neg, n, d) = (if neg then - t else t)"
    by (simp_all add: valof_def exact_value_def a_def b_def t_def)
  from 1 2 3 show ?thesis unfolding x y q by (cases neg; cases "negative y"; simp; linarith)
qed

section \<open>The three ways through the extractor\<close>

lemma extract_double_not_good:
  "\<not> good s \<Longrightarrow> extract_double val s = (val, s\<lparr>failbit := True\<rparr>)"
  by (simp add: extract_double_def sentry_not_good)

lemma extract_double_eof:
  "good s \<Longrightarrow> \<forall>c \<in> set (buf s). isspace c \<Longrightarrow>
   extract_double val s = (val, s\<lparr>buf := [], eofbit := True, failbit := True\<rparr>)"
  by (simp add: extract_double_def sentry_skip_eof dropWhile_Nil_iff)

lemma extract_double_scan:
  assumes "good s" and "dropWhile isspace (buf s) \<noteq> []"
    and "scan_float (dropWhile isspace (buf s)) = (fld, r)"
  shows "extract_double val s =
    (Some (fst (convert_to_v fld)),
     s\<lparr>buf := r, eofbit := (r = []), failbit := snd (convert_to_v fld)\<rparr>)"
  using assms sentry_skip_token [OF assms(1,2)]
  by (cases s) (simp add: extract_double_def good_def case_prod_beta)

lemma extract_double_cases:
  obtains (not_good) "\<not> good s" "extract_double val s = (val, s\<lparr>failbit := True\<rparr>)"
    | (at_end) "good s" "\<forall>c \<in> set (buf s). isspace c"
      "extract_double val s = (val, s\<lparr>buf := [], eofbit := True, failbit := True\<rparr>)"
    | (scanned) fld r where "good s" "dropWhile isspace (buf s) \<noteq> []"
      "scan_float (dropWhile isspace (buf s)) = (fld, r)"
      "extract_double val s =
         (Some (fst (convert_to_v fld)),
          s\<lparr>buf := r, eofbit := (r = []), failbit := snd (convert_to_v fld)\<rparr>)"
proof (cases "good s")
  case False
  then show ?thesis by (intro not_good extract_double_not_good)
next
  case True
  show ?thesis
  proof (cases "dropWhile isspace (buf s) = []")
    case True
    then have "\<forall>c \<in> set (buf s). isspace c" by (simp add: dropWhile_Nil_iff)
    with \<open>good s\<close> show ?thesis by (intro at_end extract_double_eof)
  next
    case False
    obtain fld r where "scan_float (dropWhile isspace (buf s)) = (fld, r)"
      by (cases "scan_float (dropWhile isspace (buf s))")
    with \<open>good s\<close> False show ?thesis by (intro scanned extract_double_scan)
  qed
qed

section \<open>Invariants of the extractor\<close>

lemma wf_extract_double [wf_keep]: "wf_stream s \<Longrightarrow> wf_stream (snd (extract_double val s))"
  by (cases rule: extract_double_cases [where s = s and val = val]) (auto simp: wf_stream_def)

lemma extract_double_suffix [eats]: "suffix (buf (snd (extract_double val s))) (buf s)"
proof (cases rule: extract_double_cases [where s = s and val = val])
  case (scanned fld r)
  have "suffix r (dropWhile isspace (buf s))"
    using scan_float_suffix [of "dropWhile isspace (buf s)"] scanned(3) by simp
  then have "suffix r (buf s)"
    by (rule suffix_order.trans) (rule suffix_dropWhile)
  with scanned(4) show ?thesis by simp
qed simp_all

lemma extract_double_assigned:
  "\<not> fail (snd (extract_double val s)) \<Longrightarrow> \<exists>v. fst (extract_double val s) = Some v"
  by (cases rule: extract_double_cases [where s = s and val = val]) (simp_all add: fail_def)

lemma convert_to_v_ok_nonempty: "\<not> snd (convert_to_v fld) \<Longrightarrow> fld \<noteq> []"
  by (cases fld rule: convert_to_v_cases) auto

lemma extract_double_progress:
  assumes "\<not> fail (snd (extract_double val s))"
  shows "length (buf (snd (extract_double val s))) < length (buf s)"
proof (cases rule: extract_double_cases [where s = s and val = val])
  case (scanned fld r)
  with assms have "fld \<noteq> []" by (intro convert_to_v_ok_nonempty) (simp add: fail_def)
  with scan_float_length [of "dropWhile isspace (buf s)"] scanned(3)
  have "length r < length (dropWhile isspace (buf s))" by (cases fld) simp_all
  with length_dropWhile_le [of isspace "buf s"] scanned(4) show ?thesis by simp
qed (use assms in \<open>simp_all add: fail_def\<close>)

lemma extract_double_past_end:
  assumes "live s" "\<forall>c \<in> set (buf s). isspace c"
  shows "extract_double val s = (val, s\<lparr>buf := [], eofbit := True, failbit := True\<rparr>)"
proof (cases "good s")
  case True
  from True assms(2) show ?thesis by (rule extract_double_eof)
next
  case False
  with assms(1) show ?thesis by (simp add: extract_double_not_good live_at_end)
qed

section \<open>The extractor against the reference\<close>

lemma scan_float_Nil [simp]: "scan_float [] = ([], [])"
  by (simp add: scan_float_def)

lemma next_double_None_space: "\<forall>c \<in> set cs. isspace c \<Longrightarrow> next_double cs = None"
  by (simp add: next_double_def dropWhile_Nil_iff [THEN iffD2])

lemma next_double_convert:
  assumes "scan_float (dropWhile isspace cs) = (fld, r)"
  shows "next_double cs =
    (if snd (convert_to_v fld) then None else Some (fst (convert_to_v fld), r))"
  using assms by (cases fld rule: convert_to_v_cases) (simp_all add: next_double_def)

lemma extract_double_ok:
  assumes "good s" and "next_double (buf s) = Some (x, r)"
  shows "extract_double val s = (Some x, s\<lparr>buf := r, eofbit := (r = [])\<rparr>)"
proof (cases rule: extract_double_cases [where s = s and val = val])
  case (scanned fld r')
  from assms(2) next_double_convert [OF scanned(3)]
  have "\<not> snd (convert_to_v fld)" "fst (convert_to_v fld) = x" "r' = r"
    by (simp_all split: if_splits)
  with scanned(4) assms(1) show ?thesis by (cases s) (simp add: good_def)
qed (use assms in \<open>simp_all add: next_double_None_space\<close>)

lemma fail_extract_double_iff:
  assumes "good s"
  shows "fail (snd (extract_double val s)) \<longleftrightarrow> next_double (buf s) = None"
proof (cases rule: extract_double_cases [where s = s and val = val])
  case (scanned fld r)
  with assms next_double_convert [OF scanned(3)] show ?thesis
    by (simp add: fail_def good_def)
qed (use assms in \<open>simp_all add: next_double_None_space fail_def\<close>)

lemma next_double_nearest:
  assumes "next_double cs = Some (x, r)"
  obtains q where "float_literal (fst (scan_float (dropWhile isspace cs))) = Some q"
    and "negative x = fst q" and "is_double x"
    and "\<bar>valof x - exact_value q\<bar> \<le> 2 powi (exponent x - 1)"
    and "\<And>y. in_precision y \<Longrightarrow> \<bar>valof x - exact_value q\<bar> \<le> \<bar>valof y - exact_value q\<bar>"
proof -
  obtain fld r' where sc: "scan_float (dropWhile isspace cs) = (fld, r')"
    by (cases "scan_float (dropWhile isspace cs)")
  from assms next_double_convert [OF sc]
  have ok: "\<not> snd (convert_to_v fld)" and x: "fst (convert_to_v fld) = x"
    by (simp_all split: if_splits)
  from ok show thesis
  proof (cases fld rule: convert_to_v_cases)
    case (rounded neg n d m e)
    with x have "x = \<lparr>negative = neg, mantissa = m, exponent = e\<rparr>" by simp
    with rounded(1) sc valof_rounded [OF rounded(2,3), of neg]
      is_double_round [OF rounded(2,3), of neg] valof_closest [OF rounded(2,3), of _ neg]
    show thesis by (intro that [of "(neg, n, d)"]) simp_all
  qed simp_all
qed

end
