(* ===== verification/Process.thy ===== *)
theory Process
  imports Ifstream
begin

text \<open>
  The process a checker runs in, as far as \<^verbatim>\<open>testlib.h\<close> touches it: the three
  global streams \<^verbatim>\<open>inf\<close>, \<^verbatim>\<open>ouf\<close>, \<^verbatim>\<open>ans\<close>, what has been written to \<^verbatim>\<open>std::cout\<close>
  and \<^verbatim>\<open>std::cerr\<close>, the exit codes, and \<^verbatim>\<open>exit\<close>. A call of the header either
  returns a value and the next state of the process, or stops it: the left
  summand of a result is the exit status with the final state, or undefined
  behaviour (a variable read before it was assigned). Calls are sequenced with
  \<open>and_then\<close>, which does not run its continuation after a stop.
\<close>

section \<open>State\<close>

datatype stream_ref = R_inf | R_ouf | R_ans

record world =
  inf_file :: ifstream
  ouf_file :: ifstream
  ans_file :: ifstream
  cout :: string
  cerr :: string

definition start :: world where
  "start = \<lparr>inf_file = closed, ouf_file = closed, ans_file = closed, cout = [], cerr = []\<rparr>"

fun get_stream :: "stream_ref \<Rightarrow> world \<Rightarrow> ifstream" where
  "get_stream R_inf w = inf_file w"
| "get_stream R_ouf w = ouf_file w"
| "get_stream R_ans w = ans_file w"

fun put_stream :: "stream_ref \<Rightarrow> ifstream \<Rightarrow> world \<Rightarrow> world" where
  "put_stream R_inf s w = w\<lparr>inf_file := s\<rparr>"
| "put_stream R_ouf s w = w\<lparr>ouf_file := s\<rparr>"
| "put_stream R_ans s w = w\<lparr>ans_file := s\<rparr>"

section \<open>Exit codes and termination\<close>

definition code_ok :: int where "code_ok = 0"
definition code_wa :: int where "code_wa = 1"
definition code_pe :: int where "code_pe = 2"
definition code_fail :: int where "code_fail = 3"
definition code_dirt :: int where "code_dirt = 4"
definition code_points :: int where "code_points = 7"

lemmas code_defs =
  code_ok_def code_wa_def code_pe_def code_fail_def code_dirt_def code_points_def

datatype stop = Exit int world | Undefined_Behaviour

type_synonym 'a result = "stop + 'a \<times> world"
type_synonym 'a prog = "world \<Rightarrow> 'a result"

definition exit :: "int \<Rightarrow> world \<Rightarrow> 'a result" where
  "exit status w = Inl (Exit status w)"

definition ret :: "'a \<Rightarrow> 'a prog" where
  "ret a w = Inr (a, w)"

definition and_then :: "'a prog \<Rightarrow> ('a \<Rightarrow> 'b prog) \<Rightarrow> 'b prog" where
  "and_then m f w = (case m w of Inl e \<Rightarrow> Inl e | Inr (a, w1) \<Rightarrow> f a w1)"

section \<open>Output\<close>

definition cerr_line :: "string \<Rightarrow> world \<Rightarrow> world" where
  "cerr_line msg w = w\<lparr>cerr := cerr w @ msg @ [CHR 0x0A]\<rparr>"

definition cout_line :: "string \<Rightarrow> world \<Rightarrow> world" where
  "cout_line msg w = w\<lparr>cout := cout w @ msg @ [CHR 0x0A]\<rparr>"

lemmas process_defs =
  start_def code_defs exit_def ret_def and_then_def cerr_line_def cout_line_def

declare process_defs [cxx_defs]

section \<open>What a result shows to the parent process\<close>

definition exit_status :: "'a result \<Rightarrow> int option" where
  "exit_status r = (case r of Inl (Exit c w) \<Rightarrow> Some c | _ \<Rightarrow> None)"

definition final_world :: "'a result \<Rightarrow> world option" where
  "final_world r =
     (case r of Inl (Exit c w) \<Rightarrow> Some w | Inl Undefined_Behaviour \<Rightarrow> None
      | Inr (a, w) \<Rightarrow> Some w)"

definition returns :: "'a result \<Rightarrow> bool" where
  "returns r \<longleftrightarrow> (case r of Inl e \<Rightarrow> False | Inr x \<Rightarrow> True)"

definition reported :: "'a result \<Rightarrow> (int \<times> string) option" where
  "reported r = (case r of Inl (Exit c w) \<Rightarrow> Some (c, cout w) | _ \<Rightarrow> None)"

definition wf_world :: "world \<Rightarrow> bool" where
  "wf_world w \<longleftrightarrow> live (inf_file w) \<and> live (ouf_file w) \<and> live (ans_file w)"

text \<open>
  The protocol between a checker and the judge: a run ends either by a verdict,
  with an exit code of the set \<open>V\<close>, text added to \<^verbatim>\<open>cout\<close> and \<^verbatim>\<open>cerr\<close> as it
  was, or by a failure, with code \<^verbatim>\<open>_pe\<close> or \<^verbatim>\<open>_fail\<close>, a diagnostic added to
  \<^verbatim>\<open>cerr\<close> and \<^verbatim>\<open>cout\<close> as it was; a call that returns has written nothing.
\<close>

definition protocol :: "int set \<Rightarrow> world \<Rightarrow> 'a result \<Rightarrow> bool" where
  "protocol V w r \<longleftrightarrow>
     (case r of
        Inl (Exit c w') \<Rightarrow>
          (c \<in> V \<and> cout w' \<noteq> cout w \<and> cerr w' = cerr w) \<or>
          (c \<in> {code_pe, code_fail} \<and> cout w' = cout w \<and> cerr w' \<noteq> cerr w)
      | Inl Undefined_Behaviour \<Rightarrow> False
      | Inr (a, w') \<Rightarrow> cout w' = cout w \<and> cerr w' = cerr w)"

lemmas observe_defs = exit_status_def final_world_def returns_def reported_def

declare observe_defs [cxx_defs]

section \<open>Streams of a state\<close>

lemma get_put_same [simp]: "get_stream r (put_stream r s w) = s"
  by (cases r) simp_all

lemma get_put_other [simp]: "r \<noteq> r' \<Longrightarrow> get_stream r (put_stream r' s w) = get_stream r w"
  by (cases r; cases r') simp_all

lemma put_get [simp]: "put_stream r (get_stream r w) w = w"
  by (cases r) simp_all

lemma put_put [simp]: "put_stream r s (put_stream r s' w) = put_stream r s w"
  by (cases r) simp_all

lemma cout_put_stream [simp]: "cout (put_stream r s w) = cout w"
  by (cases r) simp_all

lemma cerr_put_stream [simp]: "cerr (put_stream r s w) = cerr w"
  by (cases r) simp_all

lemma get_stream_cerr_line [simp]: "get_stream r (cerr_line m w) = get_stream r w"
  by (cases r) (simp_all add: cerr_line_def)

lemma get_stream_cout_line [simp]: "get_stream r (cout_line m w) = get_stream r w"
  by (cases r) (simp_all add: cout_line_def)

lemma cout_cerr_line [simp]: "cout (cerr_line m w) = cout w"
  by (simp add: cerr_line_def)

lemma cerr_cout_line [simp]: "cerr (cout_line m w) = cerr w"
  by (simp add: cout_line_def)

lemma wf_world_iff: "wf_world w \<longleftrightarrow> (\<forall>r. live (get_stream r w))"
proof
  assume "wf_world w"
  then show "\<forall>r. live (get_stream r w)"
    by (auto simp: wf_world_def intro: stream_ref.induct)
next
  assume "\<forall>r. live (get_stream r w)"
  then have "live (get_stream R_inf w)" "live (get_stream R_ouf w)" "live (get_stream R_ans w)"
    by blast+
  then show "wf_world w" by (simp add: wf_world_def)
qed

lemma wf_world_put [wf_keep]: "wf_world w \<Longrightarrow> live s \<Longrightarrow> wf_world (put_stream r s w)"
  by (cases r) (simp_all add: wf_world_def)

lemma wf_world_get: "wf_world w \<Longrightarrow> live (get_stream r w)"
  by (simp add: wf_world_iff)

lemma wf_world_cerr_line [wf_keep]: "wf_world (cerr_line m w) = wf_world w"
  by (simp add: wf_world_def cerr_line_def)

lemma wf_world_cout_line [wf_keep]: "wf_world (cout_line m w) = wf_world w"
  by (simp add: wf_world_def cout_line_def)

lemma live_closed: "live closed"
  by (simp add: live_def wf_stream_def closed_def)

lemma wf_world_start [wf_keep]: "wf_world start"
  by (simp add: wf_world_def start_def live_closed)

section \<open>Sequencing\<close>

lemma and_then_ret [simp]: "and_then (ret a) f = f a"
  by (rule ext) (simp add: and_then_def ret_def)

lemma and_then_ret_right [simp]: "and_then m ret = m"
  by (rule ext) (simp add: and_then_def ret_def split: sum.splits)

lemma and_then_assoc: "and_then (and_then m f) g = and_then m (\<lambda>a. and_then (f a) g)"
  by (rule ext) (simp add: and_then_def split: sum.splits)

lemma and_then_stop: "m w = Inl e \<Longrightarrow> and_then m f w = Inl e"
  by (simp add: and_then_def)

lemma and_then_value: "m w = Inr (a, w1) \<Longrightarrow> and_then m f w = f a w1"
  by (simp add: and_then_def)

lemma exit_never_returns [simp]: "\<not> returns (exit c w)"
  by (simp add: returns_def exit_def)

lemma exit_status_exit [simp]: "exit_status (exit c w) = Some c"
  by (simp add: exit_status_def exit_def)

lemma final_world_exit [simp]: "final_world (exit c w) = Some w"
  by (simp add: final_world_def exit_def)

lemma reported_exit [simp]: "reported (exit c w) = Some (c, cout w)"
  by (simp add: reported_def exit_def)

lemma reported_stop: "m w = Inl e \<Longrightarrow> reported (and_then m f w) = reported (m w)"
  by (simp add: and_then_def reported_def)

section \<open>The protocol composes\<close>

lemma protocol_and_then:
  assumes "protocol V w (m w)"
    and "\<And>a w1. m w = Inr (a, w1) \<Longrightarrow> protocol V w1 (f a w1)"
  shows "protocol V w (and_then m f w)"
proof (cases "m w")
  case (Inl e)
  with assms(1) show ?thesis by (simp add: and_then_def protocol_def)
next
  case (Inr p)
  obtain a w1 where p: "p = (a, w1)" by (cases p)
  with Inr assms(1) have same: "cout w1 = cout w" "cerr w1 = cerr w"
    by (simp_all add: protocol_def)
  from assms(2) [of a w1] Inr p have "protocol V w1 (f a w1)" by simp
  with same Inr p show ?thesis
    by (auto simp: and_then_def protocol_def split: sum.splits stop.splits)
qed

lemma and_then_never_returns:
  assumes "\<And>a w1. \<not> returns (f a w1)"
  shows "\<not> returns (and_then m f w)"
proof (cases "m w")
  case (Inl e)
  then show ?thesis by (simp add: and_then_def returns_def)
next
  case (Inr p)
  with assms [of "fst p" "snd p"] show ?thesis by (simp add: and_then_def case_prod_beta)
qed

lemma protocol_exits: "protocol V w r \<Longrightarrow> \<not> returns r \<Longrightarrow> \<exists>c w'. r = Inl (Exit c w')"
  by (auto simp: protocol_def returns_def split: sum.splits stop.splits)

end
