(* ===== verification/Stream_Reader.thy ===== *)
theory Stream_Reader
  imports Num_Get_Float Process
begin

text \<open>
  The class \<^verbatim>\<open>InStream\<close> of \<^verbatim>\<open>testlib.h\<close>: an object holds a reference to one of
  the global streams, a name for diagnostics and a counter of reads. Each
  method takes the object and the process state; a read that succeeds returns
  the value with the updated object, a read that fails writes its diagnostic
  to \<^verbatim>\<open>std::cerr\<close> and exits with \<^verbatim>\<open>_pe\<close>. The format is always the message
  the source prints, so the lemmas state them character by character.
\<close>

section \<open>The object\<close>

record InStream =
  stream :: stream_ref
  name :: string
  readCount :: cxx_int

definition new_InStream :: "stream_ref \<Rightarrow> string \<Rightarrow> InStream" where
  "new_InStream s nm = \<lparr>stream = s, name = nm, readCount = 0\<rparr>"

definition initFile :: "(path \<rightharpoonup> string) \<Rightarrow> InStream \<Rightarrow> path \<Rightarrow> unit prog" where
  "initFile fs this fileName w =
     (let w1 = put_stream (stream this)
                 (open_file fs fileName (get_stream (stream this) w)) w
      in if \<not> is_open (get_stream (stream this) w1)
         then exit code_fail
                (cerr_line (''Failed to open '' @ name this @ '' file: '' @ fileName) w1)
         else Inr ((), w1))"

section \<open>Reads\<close>

definition read_failed :: "string \<Rightarrow> InStream \<Rightarrow> ifstream \<Rightarrow> world \<Rightarrow> 'a result" where
  "read_failed what this s w =
     (if eof s
      then exit code_pe
             (cerr_line (''Unexpected EOF when reading '' @ what @ '' from '' @ name this) w)
      else exit code_pe
             (cerr_line (''Failed to read '' @ what @ '' from '' @ name this) w))"

definition readInt :: "InStream \<Rightarrow> (cxx_int \<times> InStream) prog" where
  "readInt this w =
     (let this1 = this\<lparr>readCount := readCount this + 1\<rparr> in
      case extract_int None (get_stream (stream this1) w) of
        (result, s) \<Rightarrow>
          let w1 = put_stream (stream this1) s w in
          if fail s then read_failed ''integer'' this1 s w1
          else (case result of
                  None \<Rightarrow> Inl Undefined_Behaviour
                | Some v \<Rightarrow> Inr ((v, this1), w1)))"

definition readString :: "InStream \<Rightarrow> (string \<times> InStream) prog" where
  "readString this w =
     (let this1 = this\<lparr>readCount := readCount this + 1\<rparr> in
      case extract_string [] (get_stream (stream this1) w) of
        (result, s) \<Rightarrow>
          let w1 = put_stream (stream this1) s w in
          if fail s then read_failed ''string'' this1 s w1
          else Inr ((result, this1), w1))"

definition readDouble :: "InStream \<Rightarrow> (double \<times> InStream) prog" where
  "readDouble this w =
     (let this1 = this\<lparr>readCount := readCount this + 1\<rparr> in
      case extract_double None (get_stream (stream this1) w) of
        (result, s) \<Rightarrow>
          let w1 = put_stream (stream this1) s w in
          if fail s then read_failed ''double'' this1 s w1
          else (case result of
                  None \<Rightarrow> Inl Undefined_Behaviour
                | Some v \<Rightarrow> Inr ((v, this1), w1)))"

definition readLine :: "InStream \<Rightarrow> (string \<times> InStream) prog" where
  "readLine this w =
     (let this1 = this\<lparr>readCount := readCount this + 1\<rparr> in
      case getline [] (get_stream (stream this1) w) of
        (result, s) \<Rightarrow>
          let w1 = put_stream (stream this1) s w in
          if fail s then read_failed ''line'' this1 s w1
          else Inr ((result, this1), w1))"

definition seekEof :: "InStream \<Rightarrow> (bool \<times> InStream) prog" where
  "seekEof this w =
     (let s = ws (get_stream (stream this) w) in
      Inr ((eof s, this), put_stream (stream this) s w))"

section \<open>The shape the four reads share\<close>

text \<open>
  \<^verbatim>\<open>readInt\<close>, \<^verbatim>\<open>readString\<close>, \<^verbatim>\<open>readDouble\<close> and \<^verbatim>\<open>readLine\<close> are one method up
  to the extractor they call and the word in their diagnostics. \<open>read_with\<close> is that method over
  any extractor; an extractor returns what it left in the variable (\<open>None\<close> for
  a variable it never assigned) and the stream. The properties every read has
  are proved once, for an extractor that meets \<open>extractor_ok\<close>.
\<close>

definition read_with ::
  "string \<Rightarrow> (ifstream \<Rightarrow> 'a option \<times> ifstream) \<Rightarrow> InStream \<Rightarrow> ('a \<times> InStream) prog" where
  "read_with what extract this w =
     (let this1 = this\<lparr>readCount := readCount this + 1\<rparr> in
      case extract (get_stream (stream this1) w) of
        (result, s) \<Rightarrow>
          let w1 = put_stream (stream this1) s w in
          if fail s then read_failed what this1 s w1
          else (case result of
                  None \<Rightarrow> Inl Undefined_Behaviour
                | Some v \<Rightarrow> Inr ((v, this1), w1)))"

definition assigned :: "'a \<times> ifstream \<Rightarrow> 'a option \<times> ifstream" where
  "assigned p = (Some (fst p), snd p)"

definition extractor_ok :: "(ifstream \<Rightarrow> 'a option \<times> ifstream) \<Rightarrow> bool" where
  "extractor_ok extract \<longleftrightarrow>
     (\<forall>s. (wf_stream s \<longrightarrow> wf_stream (snd (extract s))) \<and>
          suffix (buf (snd (extract s))) (buf s) \<and>
          (\<not> fail (snd (extract s)) \<longrightarrow>
             fst (extract s) \<noteq> None \<and> good s \<and>
             length (buf (snd (extract s))) < length (buf s)))"

lemmas reader_defs =
  new_InStream_def initFile_def read_failed_def readInt_def readString_def readDouble_def
  readLine_def seekEof_def read_with_def assigned_def

declare reader_defs [cxx_defs]

section \<open>Every read is \<open>read_with\<close>\<close>

lemma readInt_read_with: "readInt = read_with ''integer'' (extract_int None)"
  by (intro ext) (simp add: readInt_def read_with_def)

lemma readString_read_with:
  "readString = read_with ''string'' (\<lambda>s. assigned (extract_string [] s))"
  by (intro ext) (simp add: readString_def read_with_def assigned_def case_prod_beta Let_def)

lemma readDouble_read_with: "readDouble = read_with ''double'' (extract_double None)"
  by (intro ext) (simp add: readDouble_def read_with_def)

lemma readLine_read_with:
  "readLine = read_with ''line'' (\<lambda>s. assigned (getline [] s))"
  by (intro ext) (simp add: readLine_def read_with_def assigned_def case_prod_beta Let_def)

lemmas read_with_folds =
  readInt_read_with readString_read_with readDouble_read_with readLine_read_with

section \<open>The extractors meet the interface\<close>

lemma sentry_fail_not_good: "\<not> good s \<Longrightarrow> fail (snd (sentry n s))"
  by (simp add: sentry_not_good fail_def)

lemma extractor_ok_int: "extractor_ok (extract_int None)"
  unfolding extractor_ok_def
proof (intro allI conjI impI)
  fix s
  show "suffix (buf (snd (extract_int None s))) (buf s)" by (rule extract_int_suffix)
  show "wf_stream (snd (extract_int None s))" if "wf_stream s" using that by (rule wf_extract_int)
  assume ok: "\<not> fail (snd (extract_int None s))"
  then show "fst (extract_int None s) \<noteq> None"
    using extract_int_assigned [of None s] by auto
  show "good s"
    using ok by (cases "good s") (simp_all add: extract_int_not_good fail_def)
  show "length (buf (snd (extract_int None s))) < length (buf s)"
    using ok by (rule extract_int_progress)
qed

lemma extractor_ok_string: "extractor_ok (\<lambda>s. assigned (extract_string [] s))"
  unfolding extractor_ok_def assigned_def
proof (intro allI conjI impI; simp)
  fix s
  show "suffix (buf (snd (extract_string [] s))) (buf s)" by (rule extract_string_suffix)
  show "wf_stream (snd (extract_string [] s))" if "wf_stream s"
    using that by (rule wf_extract_string)
  show "good s" if "\<not> fail (snd (extract_string [] s))"
    using that by (cases "good s") (simp_all add: extract_string_not_good fail_def)
  show "length (buf (snd (extract_string [] s))) < length (buf s)"
    if "\<not> fail (snd (extract_string [] s))" using that by (rule extract_string_progress)
qed

lemma extractor_ok_double: "extractor_ok (extract_double None)"
  unfolding extractor_ok_def
proof (intro allI conjI impI)
  fix s
  show "suffix (buf (snd (extract_double None s))) (buf s)" by (rule extract_double_suffix)
  show "wf_stream (snd (extract_double None s))" if "wf_stream s"
    using that by (rule wf_extract_double)
  assume ok: "\<not> fail (snd (extract_double None s))"
  then show "fst (extract_double None s) \<noteq> None"
    using extract_double_assigned [of None s] by auto
  show "good s"
    using ok by (cases "good s") (simp_all add: extract_double_not_good fail_def)
  show "length (buf (snd (extract_double None s))) < length (buf s)"
    using ok by (rule extract_double_progress)
qed

lemma extractor_ok_line: "extractor_ok (\<lambda>s. assigned (getline [] s))"
  unfolding extractor_ok_def assigned_def
proof (intro allI conjI impI; simp)
  fix s
  show "suffix (buf (snd (getline [] s))) (buf s)" by (rule getline_suffix)
  show "wf_stream (snd (getline [] s))" if "wf_stream s" using that by (rule wf_getline)
  show "good s" if "\<not> fail (snd (getline [] s))"
    using that by (cases "good s") (simp_all add: getline_not_good fail_def)
  show "length (buf (snd (getline [] s))) < length (buf s)"
    if "\<not> fail (snd (getline [] s))" using that by (rule getline_progress)
qed

lemmas extractors_ok =
  extractor_ok_int extractor_ok_string extractor_ok_double extractor_ok_line

section \<open>What every read does\<close>

lemma read_failed_exit:
  "read_failed what this s w = exit code_pe
     (cerr_line ((if eof s then ''Unexpected EOF when reading '' else ''Failed to read '')
                 @ what @ '' from '' @ name this) w)"
  by (simp add: read_failed_def)

lemma read_with_cases:
  assumes "extractor_ok ex"
  obtains (returned) v s where
      "ex (get_stream (stream this) w) = (Some v, s)" "\<not> fail s" "good (get_stream (stream this) w)"
      "length (buf s) < length (buf (get_stream (stream this) w))"
      "read_with what ex this w =
         Inr ((v, this\<lparr>readCount := readCount this + 1\<rparr>), put_stream (stream this) s w)"
    | (exited) res s where
      "ex (get_stream (stream this) w) = (res, s)" "fail s"
      "read_with what ex this w =
         exit code_pe (cerr_line
           ((if eof s then ''Unexpected EOF when reading '' else ''Failed to read '')
            @ what @ '' from '' @ name this) (put_stream (stream this) s w))"
proof -
  obtain res s where ex: "ex (get_stream (stream this) w) = (res, s)"
    by (cases "ex (get_stream (stream this) w)")
  show thesis
  proof (cases "fail s")
    case True
    with ex exited [of res s] show thesis
      by (simp add: read_with_def read_failed_exit)
  next
    case False
    with assms ex obtain v where "res = Some v" and "good (get_stream (stream this) w)"
      and "length (buf s) < length (buf (get_stream (stream this) w))"
      unfolding extractor_ok_def by (metis fst_conv snd_conv not_None_eq)
    with False ex returned [of v s] show thesis
      by (simp add: read_with_def)
  qed
qed

section \<open>Outcomes of a read\<close>

lemma read_with_outcomes:
  assumes "extractor_ok ex"
  shows "case read_with what ex this w of
           Inl (Exit c w') \<Rightarrow> c = code_pe \<and> cout w' = cout w \<and> cerr w \<noteq> cerr w'
         | Inl Undefined_Behaviour \<Rightarrow> False
         | Inr ((v, this'), w') \<Rightarrow>
             this' = this\<lparr>readCount := readCount this + 1\<rparr> \<and> cout w' = cout w \<and>
             cerr w' = cerr w"
  using assms
proof (cases rule: read_with_cases [where this = this and w = w and what = what])
  case (returned v s)
  then show ?thesis by simp
next
  case (exited res s)
  then show ?thesis by (simp add: exit_def cerr_line_def)
qed

lemma read_with_frame:
  assumes "extractor_ok ex" and "final_world (read_with what ex this w) = Some w'"
    and "r \<noteq> stream this"
  shows "get_stream r w' = get_stream r w"
  using assms(1)
proof (cases rule: read_with_cases [where this = this and w = w and what = what])
  case (returned v s)
  with assms(2,3) show ?thesis by (auto simp: final_world_def)
next
  case (exited res s)
  with assms(2,3) show ?thesis by (auto simp: final_world_def exit_def)
qed

lemma read_with_final:
  assumes "extractor_ok ex" and "r \<noteq> stream this"
  shows "map_option (get_stream r) (final_world (read_with what ex this w)) = Some (get_stream r w)"
  using assms(1)
proof (cases rule: read_with_cases [where this = this and w = w and what = what])
  case (returned v s)
  with assms(2) show ?thesis by (simp add: final_world_def)
next
  case (exited res s)
  with assms(2) show ?thesis by (simp add: final_world_def exit_def)
qed

lemma read_with_returned:
  assumes "extractor_ok ex" and "read_with what ex this w = Inr ((v, this'), w')"
  shows "good (get_stream (stream this) w)"
    and "ex (get_stream (stream this) w) = (Some v, get_stream (stream this) w')"
    and "w' = put_stream (stream this) (get_stream (stream this) w') w"
    and "\<not> fail (get_stream (stream this) w')"
    and "this' = this\<lparr>readCount := readCount this + 1\<rparr>"
    and "length (buf (get_stream (stream this) w')) < length (buf (get_stream (stream this) w))"
  using assms(1)
  by (cases rule: read_with_cases [where this = this and w = w and what = what];
      use assms(2) in \<open>simp add: exit_def\<close>)+

lemma read_with_wf:
  assumes "extractor_ok ex" and "wf_world w" and "read_with what ex this w = Inr ((v, this'), w')"
  shows "wf_world w'"
proof -
  let ?s = "get_stream (stream this) w" and ?s' = "get_stream (stream this) w'"
  note ret = read_with_returned [OF assms(1,3)]
  have "wf_stream ?s" using assms(2) by (simp add: wf_world_get [unfolded live_def])
  with assms(1) ret(2) have "wf_stream ?s'"
    unfolding extractor_ok_def by (metis snd_conv)
  then have "live ?s'" using ret(4) by (rule live_ok)
  with assms(2) have "wf_world (put_stream (stream this) ?s' w)" by (rule wf_world_put)
  with ret(3) show ?thesis by simp
qed

lemma read_with_past_end:
  assumes "ex (get_stream (stream this) w) = (res, s)" and "fail s" and "eof s"
  shows "read_with what ex this w =
    exit code_pe (cerr_line (''Unexpected EOF when reading '' @ what @ '' from '' @ name this)
      (put_stream (stream this) s w))"
  using assms by (simp add: read_with_def read_failed_def)

lemma read_with_value:
  assumes "ex (get_stream (stream this) w) = (Some v, s)" and "\<not> fail s"
  shows "read_with what ex this w =
    Inr ((v, this\<lparr>readCount := readCount this + 1\<rparr>), put_stream (stream this) s w)"
  using assms by (simp add: read_with_def)

lemma read_with_malformed:
  assumes "ex (get_stream (stream this) w) = (res, s)" and "fail s" and "\<not> eof s"
  shows "read_with what ex this w =
    exit code_pe (cerr_line (''Failed to read '' @ what @ '' from '' @ name this)
      (put_stream (stream this) s w))"
  using assms by (simp add: read_with_def read_failed_def)

lemma protocol_read_with:
  assumes "extractor_ok ex"
  shows "protocol V w (read_with what ex this w)"
  using read_with_outcomes [OF assms, where what = what and this = this and w = w]
  by (auto simp: protocol_def split: sum.splits stop.splits)

lemma protocol_reads:
  "protocol V w (readInt this w)" "protocol V w (readString this w)"
  "protocol V w (readDouble this w)" "protocol V w (readLine this w)"
  unfolding read_with_folds by (rule protocol_read_with, rule extractors_ok)+

lemma protocol_seekEof: "protocol V w (seekEof this w)"
  by (simp add: protocol_def seekEof_def Let_def)

lemma seekEof_after_token:
  assumes "get_stream (stream this) w = (opened cs)\<lparr>buf := r, eofbit := (r = [])\<rparr>"
  shows "\<exists>w'. seekEof this w = Inr ((\<forall>c \<in> set r. isspace c, this), w') \<and> cout w' = cout w"
  using eof_ws_iff [OF live_after_token [where cs = cs and r = r]] assms
  by (simp add: seekEof_def Let_def)

section \<open>\<open>readInt\<close>\<close>

lemma readInt_next_int:
  assumes "good (get_stream (stream this) w)"
    and "next_int (buf (get_stream (stream this) w)) = Some (v, r)"
  shows "readInt this w =
    Inr ((word_of_int v, this\<lparr>readCount := readCount this + 1\<rparr>),
         put_stream (stream this) ((get_stream (stream this) w)\<lparr>buf := r, eofbit := (r = [])\<rparr>) w)"
  unfolding readInt_read_with
  using extract_int_ok [OF assms, of None] assms(1)
  by (intro read_with_value) (simp_all add: fail_def good_def)

text \<open>
  C1: On a stream in good state whose unread input is whitespace, then a
  well-formed integer token in the range of \<^verbatim>\<open>int\<close>, then anything that does not
  continue the token, \<open>readInt\<close> returns the token's value, has consumed exactly
  the whitespace and the token, has counted one read, and sets \<open>eofbit\<close> exactly
  when the token was the last thing in the file.
\<close>

theorem readInt_token:
  assumes "good (get_stream (stream this) w)"
    and "buf (get_stream (stream this) w) = sp @ lit @ r"
    and "\<forall>c \<in> set sp. isspace c"
    and "field_value lit = Some v" and "in_int_range v"
    and "r = [] \<or> \<not> isdigit (hd r)"
  shows "readInt this w =
      Inr ((word_of_int v, this\<lparr>readCount := readCount this + 1\<rparr>),
           put_stream (stream this)
             ((get_stream (stream this) w)\<lparr>buf := r, eofbit := (r = [])\<rparr>) w)
    \<and> sint (word_of_int v :: cxx_int) = v"
proof -
  have "next_int (buf (get_stream (stream this) w)) = Some (v, r)"
    unfolding assms(2) using assms(3,4,6,5) by (rule next_int_literal)
  with assms(1) sint_in_range [OF assms(5)] show ?thesis
    by (simp add: readInt_next_int)
qed

theorem readInt_token_witness:
  "readInt (new_InStream R_ouf ''ouf'') (start\<lparr>ouf_file := opened '' -42 rest''\<rparr>) =
     Inr ((- 42, \<lparr>stream = R_ouf, name = ''ouf'', readCount = 1\<rparr>),
          start\<lparr>ouf_file := (opened '' -42 rest'')\<lparr>buf := '' rest''\<rparr>\<rparr>)
   \<and> sint (- 42 :: cxx_int) = - 42"
  using readInt_token [of "new_InStream R_ouf ''ouf''" "start\<lparr>ouf_file := opened '' -42 rest''\<rparr>"
      "'' ''" "''-42''" "'' rest''" "- 42"]
  by (simp add: cxx_defs)

text \<open>
  C2: Reading an integer when nothing but whitespace is left never yields a
  default value: the process exits with code 2, the diagnostic "Unexpected EOF
  when reading integer from" and the reader's name is one line on \<^verbatim>\<open>cerr\<close>, and
  \<^verbatim>\<open>cout\<close> is untouched.
\<close>

theorem readInt_past_end:
  assumes "live (get_stream (stream this) w)"
    and "\<forall>c \<in> set (buf (get_stream (stream this) w)). isspace c"
  shows "readInt this w =
    exit code_pe
      (cerr_line (''Unexpected EOF when reading integer from '' @ name this)
        (put_stream (stream this)
          ((get_stream (stream this) w)\<lparr>buf := [], eofbit := True, failbit := True\<rparr>) w))"
  unfolding readInt_read_with
  using extract_int_past_end [OF assms, of None]
  by (intro read_with_past_end [THEN trans]) (simp_all add: fail_def eof_def)

theorem readInt_past_end_witness:
  "readInt (new_InStream R_ouf ''ouf'') (start\<lparr>ouf_file := opened '' ''\<rparr>) =
     Inl (Exit 2 (start\<lparr>ouf_file := (opened '' '')\<lparr>buf := [], eofbit := True, failbit := True\<rparr>,
                        cerr := ''Unexpected EOF when reading integer from ouf'' @ [CHR 0x0A]\<rparr>))"
  using readInt_past_end [of "new_InStream R_ouf ''ouf''" "start\<lparr>ouf_file := opened '' ''\<rparr>"]
  by (simp add: cxx_defs)

lemma readInt_rejects:
  assumes "good (get_stream (stream this) w)"
    and "next_int (buf (get_stream (stream this) w)) = None"
  shows "exit_status (readInt this w) = Some code_pe" and "\<not> returns (readInt this w)"
proof -
  obtain res s where ex: "extract_int None (get_stream (stream this) w) = (res, s)"
    by (cases "extract_int None (get_stream (stream this) w)")
  with fail_extract_int_iff [OF assms(1), of None] assms(2) have "fail s" by simp
  with ex show "exit_status (readInt this w) = Some code_pe" and "\<not> returns (readInt this w)"
    by (simp_all add: readInt_read_with read_with_def read_failed_exit)
qed

text \<open>
  C7: On a stream in good state, \<open>readInt\<close> returns exactly when the reference
  \<open>next_int\<close> finds an integer token in range; otherwise it exits with code 2.
\<close>

theorem readInt_returns_iff:
  assumes "good (get_stream (stream this) w)"
  shows "(returns (readInt this w) \<longleftrightarrow> next_int (buf (get_stream (stream this) w)) \<noteq> None)
    \<and> (\<not> returns (readInt this w) \<longleftrightarrow> exit_status (readInt this w) = Some code_pe)"
proof (cases "next_int (buf (get_stream (stream this) w))")
  case None
  with readInt_rejects [OF assms] show ?thesis by simp
next
  case (Some p)
  then obtain v r where "next_int (buf (get_stream (stream this) w)) = Some (v, r)"
    by (cases p) simp
  from readInt_next_int [OF assms this] Some show ?thesis
    by (simp add: returns_def exit_status_def)
qed

theorem readInt_returns_iff_witness:
  "(returns (readInt (new_InStream R_ans ''ans'') (start\<lparr>ans_file := opened ''x1''\<rparr>))
      \<longleftrightarrow> next_int ''x1'' \<noteq> None)
   \<and> exit_status (readInt (new_InStream R_ans ''ans'') (start\<lparr>ans_file := opened ''x1''\<rparr>)) = Some 2"
  using readInt_returns_iff [of "new_InStream R_ans ''ans''" "start\<lparr>ans_file := opened ''x1''\<rparr>"]
  by (simp add: cxx_defs)

text \<open>
  Whatever the state, \<open>readInt\<close> either returns, having counted one read and
  written nothing, or exits with code 2 after writing to \<^verbatim>\<open>cerr\<close> only. It
  never returns an unassigned variable.
\<close>

lemma readInt_outcomes:
  "case readInt this w of
     Inl (Exit c w') \<Rightarrow> c = code_pe \<and> cout w' = cout w \<and> cerr w \<noteq> cerr w'
   | Inl Undefined_Behaviour \<Rightarrow> False
   | Inr ((v, this'), w') \<Rightarrow>
       this' = this\<lparr>readCount := readCount this + 1\<rparr> \<and> cout w' = cout w \<and> cerr w' = cerr w"
  unfolding readInt_read_with by (rule read_with_outcomes) (rule extractor_ok_int)

text \<open>
  C23: A token that is a well-formed integer outside the range of \<^verbatim>\<open>int\<close> is not
  wrapped around: \<open>readInt\<close> exits with code 2.
\<close>

theorem readInt_out_of_range:
  assumes "good (get_stream (stream this) w)"
    and "buf (get_stream (stream this) w) = sp @ lit @ r"
    and "\<forall>c \<in> set sp. isspace c"
    and "field_value lit = Some v" and "\<not> in_int_range v"
    and "r = [] \<or> \<not> isdigit (hd r)"
  shows "exit_status (readInt this w) = Some code_pe"
proof -
  have "dropWhile isspace (sp @ lit @ r) = lit @ r"
    using assms(3) field_value_nonempty [OF assms(4)] field_value_no_space [OF assms(4)]
    by (rule skip_to_token)
  with accumulate_literal [OF assms(4,6)] assms(2,4,5)
  have "next_int (buf (get_stream (stream this) w)) = None"
    by (simp add: next_int_def)
  with assms(1) show ?thesis by (rule readInt_rejects)
qed

theorem readInt_out_of_range_witness:
  "exit_status (readInt (new_InStream R_ouf ''ouf'') (start\<lparr>ouf_file := opened ''2147483648''\<rparr>))
     = Some 2"
  using readInt_out_of_range [of "new_InStream R_ouf ''ouf''"
      "start\<lparr>ouf_file := opened ''2147483648''\<rparr>" "[]" "''2147483648''" "[]" 2147483648]
  by (simp add: cxx_defs)

text \<open>
  The diagnostic of a failed \<open>readInt\<close> says "Unexpected EOF" exactly when
  the scan of the sign and digits reached the end of the file, also when the
  token was malformed: a lone sign at the end of the file is reported as an
  unexpected end of file.
\<close>

lemma readInt_sign_at_end:
  assumes "good (get_stream (stream this) w)"
    and "buf (get_stream (stream this) w) = sp @ [c]" and "\<forall>c \<in> set sp. isspace c"
    and "c = CHR ''-'' \<or> c = CHR ''+''"
  shows "readInt this w =
    exit code_pe
      (cerr_line (''Unexpected EOF when reading integer from '' @ name this)
        (put_stream (stream this)
          ((get_stream (stream this) w)\<lparr>buf := [], eofbit := True, failbit := True\<rparr>) w))"
proof -
  let ?s = "get_stream (stream this) w"
  have drop: "dropWhile isspace (buf ?s) = [c]"
    unfolding assms(2) using assms(3,4) skip_to_token [of sp "[c]" "[]"] by auto
  have acc: "accumulate (dropWhile isspace (buf ?s)) = ([c], [])"
    unfolding drop using assms(4) by (auto simp: accumulate_def)
  have "field_value [c] = None"
    using assms(4) by (auto simp: field_value_sign)
  with extract_int_scan [OF assms(1) _ acc, of None] drop
  have "\<exists>res. extract_int None ?s = (res, ?s\<lparr>buf := [], eofbit := True, failbit := True\<rparr>)"
    by simp
  then obtain res where
    "extract_int None ?s = (res, ?s\<lparr>buf := [], eofbit := True, failbit := True\<rparr>)" ..
  then show ?thesis
    unfolding readInt_read_with
    by (intro read_with_past_end [THEN trans]) (simp_all add: fail_def eof_def)
qed

lemma readInt_sign_at_end_example:
  "readInt (new_InStream R_ouf ''ouf'') (start\<lparr>ouf_file := opened '' -''\<rparr>) =
     Inl (Exit 2 (start\<lparr>ouf_file := (opened '' -'')\<lparr>buf := [], eofbit := True, failbit := True\<rparr>,
                        cerr := ''Unexpected EOF when reading integer from ouf'' @ [CHR 0x0A]\<rparr>))"
  using readInt_sign_at_end [of "new_InStream R_ouf ''ouf''" "start\<lparr>ouf_file := opened '' -''\<rparr>"
      "'' ''" "CHR ''-''"]
  by (simp add: cxx_defs)

section \<open>\<open>readString\<close>\<close>

text \<open>
  C25: On a stream in good state whose unread input is whitespace, then a
  non-empty run of non-whitespace characters, then whitespace or the end of
  the file, \<open>readString\<close> returns that run and has consumed exactly the
  whitespace and the run.
\<close>

theorem readString_token:
  assumes "good (get_stream (stream this) w)"
    and "buf (get_stream (stream this) w) = sp @ tok @ r"
    and "\<forall>c \<in> set sp. isspace c"
    and "tok \<noteq> []" and "\<forall>c \<in> set tok. \<not> isspace c"
    and "r = [] \<or> isspace (hd r)"
  shows "readString this w =
      Inr ((tok, this\<lparr>readCount := readCount this + 1\<rparr>),
           put_stream (stream this)
             ((get_stream (stream this) w)\<lparr>buf := r, eofbit := (r = [])\<rparr>) w)"
  unfolding readString_read_with
  using extract_string_token [OF assms, of "[]"] assms(1)
  by (intro read_with_value) (simp_all add: assigned_def fail_def good_def)

theorem readString_token_witness:
  "readString (new_InStream R_ouf ''ouf'') (start\<lparr>ouf_file := opened ''  yes no''\<rparr>) =
     Inr ((''yes'', \<lparr>stream = R_ouf, name = ''ouf'', readCount = 1\<rparr>),
          start\<lparr>ouf_file := (opened ''  yes no'')\<lparr>buf := '' no''\<rparr>\<rparr>)"
  using readString_token [of "new_InStream R_ouf ''ouf''"
      "start\<lparr>ouf_file := opened ''  yes no''\<rparr>" "''  ''" "''yes''" "'' no''"]
  by (simp add: cxx_defs)

text \<open>
  C28: On a live stream a failed \<open>readString\<close> always reports an unexpected end
  of file: the branch of the source that prints "Failed to read string" is
  never taken. The read fails exactly when only whitespace is left.
\<close>

theorem readString_fails_at_end_only:
  assumes "live (get_stream (stream this) w)"
  shows "readString this w =
      exit code_pe
        (cerr_line (''Unexpected EOF when reading string from '' @ name this)
          (put_stream (stream this)
            ((get_stream (stream this) w)\<lparr>buf := [], eofbit := True, failbit := True\<rparr>) w))
    \<or> returns (readString this w) \<and>
      \<not> (\<forall>c \<in> set (buf (get_stream (stream this) w)). isspace c)"
proof (cases "\<forall>c \<in> set (buf (get_stream (stream this) w)). isspace c")
  case True
  from extract_string_past_end [OF assms True, of "[]"] show ?thesis
    unfolding readString_read_with
    by (intro disjI1 read_with_past_end [THEN trans])
      (simp_all add: assigned_def fail_def eof_def)
next
  case False
  with assms have g: "good (get_stream (stream this) w)"
    using live_not_good(2) by fastforce
  obtain res s where ex: "extract_string [] (get_stream (stream this) w) = (res, s)"
    by (cases "extract_string [] (get_stream (stream this) w)")
  with fail_extract_string_iff [OF g, of "[]"] False have "\<not> fail s" by simp
  with ex False show ?thesis
    by (simp add: readString_def returns_def Let_def)
qed

theorem readString_fails_at_end_only_witness:
  "readString (new_InStream R_ans ''ans'') (start\<lparr>ans_file := opened []\<rparr>) =
     Inl (Exit 2 (start\<lparr>ans_file := (opened [])\<lparr>eofbit := True, failbit := True\<rparr>,
                        cerr := ''Unexpected EOF when reading string from ans'' @ [CHR 0x0A]\<rparr>))"
  using readString_fails_at_end_only [of "new_InStream R_ans ''ans''"
      "start\<lparr>ans_file := opened []\<rparr>"]
  by (simp add: cxx_defs)

section \<open>\<open>readLine\<close>\<close>

text \<open>
  C26: On a stream in good state \<open>readLine\<close> returns the characters before the
  next newline and consumes them and the newline; when no newline is left and
  the unread input is not empty it returns all of it and sets \<open>eofbit\<close>. The
  line returned never contains a newline.
\<close>

theorem readLine_line:
  assumes "good (get_stream (stream this) w)"
    and "buf (get_stream (stream this) w) = line @ r" and "CHR 0x0A \<notin> set line"
    and "r = [] \<and> line \<noteq> [] \<or> hd r = CHR 0x0A \<and> r \<noteq> []"
  shows "readLine this w =
      Inr ((line, this\<lparr>readCount := readCount this + 1\<rparr>),
           put_stream (stream this)
             ((get_stream (stream this) w)\<lparr>buf := tl r, eofbit := (r = [])\<rparr>) w)"
proof (cases r)
  case Nil
  with assms(2,3) have "CHR 0x0A \<notin> set (buf (get_stream (stream this) w))" by simp
  from getline_last [OF assms(1) this, of "[]"] Nil assms(1,2,4) show ?thesis
    unfolding readLine_read_with
    by (intro read_with_value) (simp_all add: assigned_def fail_def good_def)
next
  case (Cons c r')
  with assms(4) have "buf (get_stream (stream this) w) = line @ CHR 0x0A # r'"
    using assms(2) by simp
  from getline_line [OF assms(1) this assms(3), of "[]"] Cons assms(1) show ?thesis
    unfolding readLine_read_with
    by (intro read_with_value) (cases "get_stream (stream this) w";
        simp add: assigned_def fail_def good_def)+
qed

theorem readLine_line_witness:
  "readLine (new_InStream R_inf ''inf'') (start\<lparr>inf_file := opened (''3 5'' @ [CHR 0x0A] @ ''x'')\<rparr>) =
     Inr ((''3 5'', \<lparr>stream = R_inf, name = ''inf'', readCount = 1\<rparr>),
          start\<lparr>inf_file := (opened (''3 5'' @ [CHR 0x0A] @ ''x''))\<lparr>buf := ''x''\<rparr>\<rparr>)"
  using readLine_line [of "new_InStream R_inf ''inf''"
      "start\<lparr>inf_file := opened (''3 5'' @ [CHR 0x0A] @ ''x'')\<rparr>" "''3 5''" "CHR 0x0A # ''x''"]
  by (simp add: cxx_defs)

text \<open>
  C27: \<open>readLine\<close> on a live stream with no unread character exits with code 2
  and the diagnostic "Unexpected EOF when reading line from"; with at least
  one unread character it returns.
\<close>

theorem readLine_past_end:
  assumes "live (get_stream (stream this) w)"
  shows "if buf (get_stream (stream this) w) = []
    then readLine this w =
      exit code_pe
        (cerr_line (''Unexpected EOF when reading line from '' @ name this)
          (put_stream (stream this)
            ((get_stream (stream this) w)\<lparr>buf := [], eofbit := True, failbit := True\<rparr>) w))
    else returns (readLine this w)"
proof (cases "buf (get_stream (stream this) w) = []")
  case True
  from getline_past_end [OF assms True] True show ?thesis
    unfolding readLine_read_with
    by (simp add: read_with_past_end assigned_def fail_def eof_def)
next
  case False
  with assms have g: "good (get_stream (stream this) w)"
    using live_not_good(2) by blast
  obtain res s where ex: "getline [] (get_stream (stream this) w) = (res, s)"
    by (cases "getline [] (get_stream (stream this) w)")
  with fail_getline_iff [OF g, of "[]"] False have "\<not> fail s" by simp
  with ex False show ?thesis
    by (simp add: readLine_def returns_def Let_def)
qed

theorem readLine_past_end_witness:
  "readLine (new_InStream R_ans ''ans'') (start\<lparr>ans_file := opened []\<rparr>) =
     Inl (Exit 2 (start\<lparr>ans_file := (opened [])\<lparr>eofbit := True, failbit := True\<rparr>,
                        cerr := ''Unexpected EOF when reading line from ans'' @ [CHR 0x0A]\<rparr>))"
  using readLine_past_end [of "new_InStream R_ans ''ans''" "start\<lparr>ans_file := opened []\<rparr>"]
  by (simp add: cxx_defs)

section \<open>\<open>seekEof\<close>\<close>

text \<open>
  C3: \<open>seekEof\<close> on a live stream answers whether only whitespace is left. It
  always returns, leaves the reader and its counter as they were, and writes
  nothing.
\<close>

theorem seekEof_answer:
  assumes "live (get_stream (stream this) w)"
  shows "seekEof this w =
    Inr ((\<forall>c \<in> set (buf (get_stream (stream this) w)). isspace c, this),
         put_stream (stream this) (ws (get_stream (stream this) w)) w)"
  using eof_ws_iff [OF assms] by (simp add: seekEof_def Let_def)

theorem seekEof_answer_witness:
  "seekEof (new_InStream R_ouf ''ouf'') (start\<lparr>ouf_file := opened '' extra''\<rparr>) =
     Inr ((False, new_InStream R_ouf ''ouf''),
          start\<lparr>ouf_file := (opened '' extra'')\<lparr>buf := ''extra''\<rparr>\<rparr>)"
  using seekEof_answer [of "new_InStream R_ouf ''ouf''" "start\<lparr>ouf_file := opened '' extra''\<rparr>"]
  by (simp add: cxx_defs)

text \<open>
  C24: \<open>seekEof\<close> is not a peek: on a stream in good state the whitespace before
  the next token is consumed whatever the answer is, the stream is left at the
  first character that is not whitespace, and the answer is that there is none.
\<close>

theorem seekEof_consumes:
  assumes "good (get_stream (stream this) w)"
    and "seekEof this w = Inr ((b, this'), w')"
  shows "buf (get_stream (stream this) w') = dropWhile isspace (buf (get_stream (stream this) w))
    \<and> (b \<longleftrightarrow> buf (get_stream (stream this) w') = [])
    \<and> \<not> fail (get_stream (stream this) w')"
proof -
  let ?s = "get_stream (stream this) w"
  from assms(2) have "w' = put_stream (stream this) (ws ?s) w" "b = eof (ws ?s)"
    by (auto simp: seekEof_def Let_def)
  then show ?thesis
    using assms(1) by (simp add: ws_good eof_def fail_def good_def)
qed

theorem seekEof_consumes_witness:
  "buf (get_stream R_ouf (start\<lparr>ouf_file := (opened ''  8'')\<lparr>buf := ''8''\<rparr>\<rparr>)) = dropWhile isspace ''  8''"
  using seekEof_consumes [of "new_InStream R_ouf ''ouf''" "start\<lparr>ouf_file := opened ''  8''\<rparr>"
      False "new_InStream R_ouf ''ouf''" "start\<lparr>ouf_file := (opened ''  8'')\<lparr>buf := ''8''\<rparr>\<rparr>"]
  by (simp add: cxx_defs)

section \<open>Invariants of the reader\<close>

text \<open>
  C22: Every call of the reader that returns keeps the state of the process
  well-formed: the three streams are live afterwards.
\<close>

theorem reads_keep_wf_world:
  assumes "wf_world w"
  shows "(readInt this w = Inr (x, w1) \<longrightarrow> wf_world w1)
    \<and> (readString this w = Inr (y, w2) \<longrightarrow> wf_world w2)
    \<and> (readDouble this w = Inr (d, w5) \<longrightarrow> wf_world w5)
    \<and> (readLine this w = Inr (z, w3) \<longrightarrow> wf_world w3)
    \<and> (seekEof this w = Inr (e, w4) \<longrightarrow> wf_world w4)"
proof (intro conjI impI)
  assume "readInt this w = Inr (x, w1)"
  then show "wf_world w1"
    unfolding readInt_read_with
    using read_with_wf [OF extractor_ok_int assms, of _ this "fst x" "snd x" w1] by simp
next
  assume "readString this w = Inr (y, w2)"
  then show "wf_world w2"
    unfolding readString_read_with
    using read_with_wf [OF extractor_ok_string assms, of _ this "fst y" "snd y" w2] by simp
next
  assume "readDouble this w = Inr (d, w5)"
  then show "wf_world w5"
    unfolding readDouble_read_with
    using read_with_wf [OF extractor_ok_double assms, of _ this "fst d" "snd d" w5] by simp
next
  assume "readLine this w = Inr (z, w3)"
  then show "wf_world w3"
    unfolding readLine_read_with
    using read_with_wf [OF extractor_ok_line assms, of _ this "fst z" "snd z" w3] by simp
next
  assume "seekEof this w = Inr (e, w4)"
  then have "w4 = put_stream (stream this) (ws (get_stream (stream this) w)) w"
    by (auto simp: seekEof_def Let_def)
  with assms show "wf_world w4"
    by (simp add: wf_world_put live_ws wf_world_get)
qed

theorem reads_keep_wf_world_witness:
  "wf_world (start\<lparr>ouf_file := (opened ''7'')\<lparr>buf := [], eofbit := True\<rparr>\<rparr>)"
  using reads_keep_wf_world [of "start\<lparr>ouf_file := opened ''7''\<rparr>" "new_InStream R_ouf ''ouf''"
      "(7, \<lparr>stream = R_ouf, name = ''ouf'', readCount = 1\<rparr>)"
      "start\<lparr>ouf_file := (opened ''7'')\<lparr>buf := [], eofbit := True\<rparr>\<rparr>"
      "([], new_InStream R_ouf ''ouf'')" start "(DBL_MAX False, new_InStream R_ouf ''ouf'')" start
      "([], new_InStream R_ouf ''ouf'')" start "(True, new_InStream R_ouf ''ouf'')" start]
  by (simp add: cxx_defs wf_world_def live_def wf_stream_def)

text \<open>
  A call of the reader touches no stream but its own: whether it returns
  or exits, the other two streams are in the final state as they were.
\<close>

lemma reads_frame:
  assumes "r \<noteq> stream this"
  shows "map_option (get_stream r) (final_world (readInt this w)) = Some (get_stream r w)
    \<and> map_option (get_stream r) (final_world (readString this w)) = Some (get_stream r w)
    \<and> map_option (get_stream r) (final_world (readDouble this w)) = Some (get_stream r w)
    \<and> map_option (get_stream r) (final_world (readLine this w)) = Some (get_stream r w)
    \<and> map_option (get_stream r) (final_world (seekEof this w)) = Some (get_stream r w)"
proof -
  have "map_option (get_stream r) (final_world (seekEof this w)) = Some (get_stream r w)"
    using assms by (simp add: seekEof_def Let_def final_world_def)
  with assms show ?thesis
    unfolding read_with_folds by (simp add: read_with_final extractors_ok)
qed

lemma reads_frame_example:
  "map_option (get_stream R_ans) (final_world (readInt (new_InStream R_ouf ''ouf'')
      (start\<lparr>ouf_file := opened ''1'', ans_file := opened ''2''\<rparr>))) = Some (opened ''2'')"
  using reads_frame [of R_ans "new_InStream R_ouf ''ouf''"
      "start\<lparr>ouf_file := opened ''1'', ans_file := opened ''2''\<rparr>"]
  by (simp add: cxx_defs)

text \<open>
  C38: A read that returns has consumed at least one character of its stream,
  so a loop that reads until \<open>seekEof\<close> answers true ends: the number of unread
  characters is a measure that every returning read decreases.
\<close>

theorem reads_make_progress:
  "(readInt this w = Inr (x, w1) \<longrightarrow>
      length (buf (get_stream (stream this) w1)) < length (buf (get_stream (stream this) w)))
   \<and> (readString this w = Inr (y, w2) \<longrightarrow>
      length (buf (get_stream (stream this) w2)) < length (buf (get_stream (stream this) w)))
   \<and> (readDouble this w = Inr (d, w4) \<longrightarrow>
      length (buf (get_stream (stream this) w4)) < length (buf (get_stream (stream this) w)))
   \<and> (readLine this w = Inr (z, w3) \<longrightarrow>
      length (buf (get_stream (stream this) w3)) < length (buf (get_stream (stream this) w)))"
  unfolding read_with_folds
  by (cases x; cases y; cases d; cases z)
     (auto dest: read_with_returned(6) [OF extractors_ok(1)]
        read_with_returned(6) [OF extractors_ok(2)] read_with_returned(6) [OF extractors_ok(3)]
        read_with_returned(6) [OF extractors_ok(4)])

theorem reads_make_progress_witness:
  "length (buf (get_stream R_ouf (start\<lparr>ouf_file := (opened ''7 8'')\<lparr>buf := '' 8''\<rparr>\<rparr>))) < length ''7 8''"
  using reads_make_progress [of "new_InStream R_ouf ''ouf''" "start\<lparr>ouf_file := opened ''7 8''\<rparr>"
      "(7, \<lparr>stream = R_ouf, name = ''ouf'', readCount = 1\<rparr>)"
      "start\<lparr>ouf_file := (opened ''7 8'')\<lparr>buf := '' 8''\<rparr>\<rparr>"
      "([], new_InStream R_ouf ''ouf'')" start "(DBL_MAX False, new_InStream R_ouf ''ouf'')" start
      "([], new_InStream R_ouf ''ouf'')" start]
  by (simp add: cxx_defs)

end
