(* ===== verification/Reader_Runs.thy ===== *)
theory Reader_Runs
  imports Stream_Reader
begin

text \<open>
  Sequences of calls on one reader. A checker is straight-line code over the
  methods of \<^verbatim>\<open>InStream\<close>; what it can observe of a reader is the sequence of
  answers to the calls it made. \<open>perform\<close> is one call by its name, \<open>run\<close> a list
  of calls in order, stopping at the first that exits, and \<open>trace\<close> the same as
  a relation between states, for proofs by rule induction. The theory proves
  what holds along every run: the counter counts the reads, the stream is
  only consumed, nothing is written, and the invariant of the process is kept.
\<close>

section \<open>Calls and runs\<close>

datatype call = ReadInt | ReadString | ReadDouble | ReadLine | SeekEof

datatype answer =
  Int_answer cxx_int | String_answer string | Double_answer double | Bool_answer bool

fun perform :: "call \<Rightarrow> InStream \<Rightarrow> (answer \<times> InStream) prog" where
  "perform ReadInt this = and_then (readInt this) (\<lambda>(v, t). ret (Int_answer v, t))"
| "perform ReadString this = and_then (readString this) (\<lambda>(v, t). ret (String_answer v, t))"
| "perform ReadDouble this = and_then (readDouble this) (\<lambda>(v, t). ret (Double_answer v, t))"
| "perform ReadLine this = and_then (readLine this) (\<lambda>(v, t). ret (String_answer v, t))"
| "perform SeekEof this = and_then (seekEof this) (\<lambda>(v, t). ret (Bool_answer v, t))"

fun run :: "call list \<Rightarrow> InStream \<Rightarrow> (answer list \<times> InStream) prog" where
  "run [] this = ret ([], this)"
| "run (c # cs) this =
     and_then (perform c this) (\<lambda>(a, t).
     and_then (run cs t) (\<lambda>(as, t'). ret (a # as, t')))"

fun is_read :: "call \<Rightarrow> bool" where
  "is_read SeekEof = False"
| "is_read c = True"

definition reads :: "call list \<Rightarrow> nat" where
  "reads cs = length (filter is_read cs)"

definition unread :: "InStream \<Rightarrow> world \<Rightarrow> nat" where
  "unread this w = length (buf (get_stream (stream this) w))"

text \<open>
  What one returning call does to the reader and the process: the counter
  grows by one for a read, nothing is written, the stream of the reader has
  lost at least one character for a read and none was added, the invariant is
  kept, and the other streams are as they were.
\<close>

definition step_ok :: "bool \<Rightarrow> InStream \<Rightarrow> world \<Rightarrow> InStream \<Rightarrow> world \<Rightarrow> bool" where
  "step_ok counted this w this' w' \<longleftrightarrow>
     this' = this\<lparr>readCount := readCount this + (if counted then 1 else 0)\<rparr> \<and>
     cout w' = cout w \<and> cerr w' = cerr w \<and>
     unread this' w' + (if counted then 1 else 0) \<le> unread this w \<and>
     (wf_world w \<longrightarrow> wf_world w') \<and>
     (\<forall>r. r \<noteq> stream this \<longrightarrow> get_stream r w' = get_stream r w)"

inductive trace :: "InStream \<times> world \<Rightarrow> (call \<times> answer) list \<Rightarrow> InStream \<times> world \<Rightarrow> bool" where
  trace_nil: "trace s [] s"
| trace_step: "perform c this w = Inr ((a, this1), w1) \<Longrightarrow> trace (this1, w1) tr s' \<Longrightarrow>
    trace (this, w) ((c, a) # tr) s'"

inductive_cases trace_NilE [elim!]: "trace s [] s'"
inductive_cases trace_ConsE [elim!]: "trace s (e # tr) s'"

lemmas runs_defs = reads_def unread_def

declare runs_defs [cxx_defs]

section \<open>One call\<close>

lemma read_with_step:
  assumes "extractor_ok ex" and "read_with what ex this w = Inr ((v, this'), w')"
  shows "step_ok True this w this' w'"
proof -
  note ret = read_with_returned [OF assms]
  have "cout w' = cout w" "cerr w' = cerr w"
    by (subst ret(3), simp)+
  moreover have "get_stream r w' = get_stream r w" if "r \<noteq> stream this" for r
    using that by (subst ret(3)) simp
  ultimately show ?thesis
    using ret(5,6) read_with_wf [OF assms(1) _ assms(2)] by (simp add: step_ok_def unread_def)
qed

lemma seekEof_step:
  assumes "seekEof this w = Inr ((b, this'), w')"
  shows "step_ok False this w this' w'"
proof -
  from assms have eq: "this' = this" "w' = put_stream (stream this) (ws (get_stream (stream this) w)) w"
    by (auto simp: seekEof_def Let_def)
  have "length (buf (ws (get_stream (stream this) w))) \<le> length (buf (get_stream (stream this) w))"
    by (rule suffix_length_le) (rule ws_suffix)
  then show ?thesis
    unfolding eq by (simp add: step_ok_def unread_def wf_world_put live_ws wf_world_get)
qed

lemma and_then_ret_Inr:
  "and_then m (\<lambda>(v, t). ret (f v, t)) w = Inr ((a, t'), w') \<longleftrightarrow>
   (\<exists>v. m w = Inr ((v, t'), w') \<and> a = f v)"
  by (auto simp: and_then_def ret_def split: sum.splits prod.splits)

lemma and_then_ret_Inl: "and_then m (\<lambda>(v, t). ret (f v, t)) w = Inl e \<longleftrightarrow> m w = Inl e"
  by (auto simp: and_then_def ret_def split: sum.splits prod.splits)

lemma perform_step:
  assumes "perform c this w = Inr ((a, this'), w')"
  shows "step_ok (is_read c) this w this' w'"
  using assms
  by (cases c)
     (auto simp: and_then_ret_Inr read_with_folds seekEof_step
           intro: read_with_step [OF extractors_ok(1)] read_with_step [OF extractors_ok(2)]
             read_with_step [OF extractors_ok(3)] read_with_step [OF extractors_ok(4)])

lemma read_with_exits:
  assumes "extractor_ok ex" and "read_with what ex this w = Inl e"
  shows "\<exists>w'. e = Exit code_pe w'"
  using read_with_outcomes [OF assms(1), where what = what and this = this and w = w] assms(2)
  by (cases e) auto

lemma perform_exits:
  assumes "perform c this w = Inl e"
  shows "\<exists>w'. e = Exit code_pe w'"
  using assms
  by (cases c)
     (auto simp: and_then_ret_Inl read_with_folds seekEof_def Let_def
           dest: read_with_exits [OF extractors_ok(1)] read_with_exits [OF extractors_ok(2)]
             read_with_exits [OF extractors_ok(3)] read_with_exits [OF extractors_ok(4)])

section \<open>Along a trace\<close>

lemma reads_Cons [simp]: "reads (c # cs) = (if is_read c then 1 else 0) + reads cs"
  by (simp add: reads_def)

lemma reads_Nil [simp]: "reads [] = 0"
  by (simp add: reads_def)

lemma reads_append [simp]: "reads (cs @ ds) = reads cs + reads ds"
  by (simp add: reads_def)

lemma reads_le_length: "reads cs \<le> length cs"
  by (simp add: reads_def)

lemma trace_invariant:
  assumes "trace s tr s'"
  shows "readCount (fst s') = readCount (fst s) + of_nat (reads (map fst tr))
    \<and> stream (fst s') = stream (fst s) \<and> name (fst s') = name (fst s)
    \<and> cout (snd s') = cout (snd s) \<and> cerr (snd s') = cerr (snd s)
    \<and> unread (fst s') (snd s') + reads (map fst tr) \<le> unread (fst s) (snd s)
    \<and> (wf_world (snd s) \<longrightarrow> wf_world (snd s'))
    \<and> (\<forall>r. r \<noteq> stream (fst s) \<longrightarrow> get_stream r (snd s') = get_stream r (snd s))"
  using assms
proof (induction rule: trace.induct)
  case (trace_nil s)
  then show ?case by simp
next
  case (trace_step c this w a this1 w1 tr s')
  from perform_step [OF trace_step.hyps(1)] trace_step.IH show ?case
    by (auto simp: step_ok_def)
qed

lemma trace_append:
  "trace s tr s' \<Longrightarrow> trace s' tr' s'' \<Longrightarrow> trace s (tr @ tr') s''"
  by (induction rule: trace.induct) (auto intro: trace.intros)

lemma run_imp_trace:
  "run cs this w = Inr ((as, this'), w') \<Longrightarrow>
   length as = length cs \<and> trace (this, w) (zip cs as) (this', w')"
proof (induction cs arbitrary: this w as)
  case Nil
  then show ?case by (auto simp: ret_def intro: trace.intros)
next
  case (Cons c cs)
  from Cons.prems obtain a t w1 bs where
    "perform c this w = Inr ((a, t), w1)" "run cs t w1 = Inr ((bs, this'), w')" "as = a # bs"
    by (auto simp: and_then_def ret_def split: sum.splits prod.splits)
  with Cons.IH [of t w1 bs] show ?case by (auto intro: trace.intros)
qed

lemma trace_imp_run:
  "trace s tr s' \<Longrightarrow> run (map fst tr) (fst s) (snd s) = Inr ((map snd tr, fst s'), snd s')"
  by (induction rule: trace.induct) (simp_all add: and_then_def ret_def)

lemma run_trace:
  "run cs this w = Inr ((as, this'), w') \<longleftrightarrow>
     length as = length cs \<and> trace (this, w) (zip cs as) (this', w')"
  using run_imp_trace [of cs this w as this' w'] trace_imp_run [of "(this, w)" "zip cs as" "(this', w')"]
  by auto

section \<open>What a run of calls guarantees\<close>

lemma run_invariant:
  assumes "run cs this w = Inr ((as, this'), w')"
  shows "readCount this' = readCount this + of_nat (reads cs)"
    and "stream this' = stream this" and "name this' = name this"
    and "length as = length cs" and "cout w' = cout w" and "cerr w' = cerr w"
    and "unread this' w' + reads cs \<le> unread this w"
    and "wf_world w \<Longrightarrow> wf_world w'"
proof -
  from run_imp_trace [OF assms] have len: "length as = length cs"
    and tr: "trace (this, w) (zip cs as) (this', w')" by simp_all
  from len have "map fst (zip cs as) = cs" by simp
  with trace_invariant [OF tr] len
  show "readCount this' = readCount this + of_nat (reads cs)"
    and "stream this' = stream this" and "name this' = name this"
    and "length as = length cs" and "cout w' = cout w" and "cerr w' = cerr w"
    and "unread this' w' + reads cs \<le> unread this w"
    and "wf_world w \<Longrightarrow> wf_world w'"
    by simp_all
qed

text \<open>
  C35: After any sequence of calls that all return, the counter of the reader
  has grown by the number of reads among them (\<open>seekEof\<close> is not counted), the
  reader still names the same stream, one answer was given per call, and
  nothing was written to \<^verbatim>\<open>cout\<close> or \<^verbatim>\<open>cerr\<close>.
\<close>

theorem run_counts_reads:
  assumes "run cs this w = Inr ((as, this'), w')"
  shows "this' = this\<lparr>readCount := readCount this + of_nat (reads cs)\<rparr>
    \<and> length as = length cs \<and> cout w' = cout w \<and> cerr w' = cerr w"
  using run_invariant [OF assms] by (cases this; cases this') simp

theorem run_counts_reads_witness:
  "run [SeekEof, ReadInt, ReadString, SeekEof] (new_InStream R_ouf ''ouf'')
      (start\<lparr>ouf_file := opened '' 7 abc ''\<rparr>) =
    Inr (([Bool_answer False, Int_answer 7, String_answer ''abc'', Bool_answer True],
          \<lparr>stream = R_ouf, name = ''ouf'', readCount = 2\<rparr>),
         start\<lparr>ouf_file := (opened '' 7 abc '')\<lparr>buf := [], eofbit := True\<rparr>\<rparr>)"
  using run_counts_reads [of "[SeekEof, ReadInt, ReadString, SeekEof]" "new_InStream R_ouf ''ouf''"
      "start\<lparr>ouf_file := opened '' 7 abc ''\<rparr>"
      "[Bool_answer False, Int_answer 7, String_answer ''abc'', Bool_answer True]"
      "\<lparr>stream = R_ouf, name = ''ouf'', readCount = 2\<rparr>"
      "start\<lparr>ouf_file := (opened '' 7 abc '')\<lparr>buf := [], eofbit := True\<rparr>\<rparr>"]
  by (simp add: cxx_defs)

text \<open>
  C36: The increment of the counter, a signed \<^verbatim>\<open>int\<close>, never overflows on a file
  of fewer than \<open>2\<^sup>3\<^sup>1 - 1\<close> characters: every read that returns consumes a
  character, so a fresh reader has made at most as many reads as its stream
  had characters, and the counter, read as a signed number, is their count.
\<close>

theorem readCount_no_overflow:
  assumes "run cs this w = Inr ((as, this'), w')" and "readCount this = 0"
    and "int (unread this w) < INT_MAX"
  shows "reads cs \<le> unread this w \<and> sint (readCount this') = int (reads cs)
    \<and> sint (readCount this') + 1 \<le> INT_MAX"
proof -
  note inv = run_invariant [OF assms(1)]
  from inv(7) have le: "reads cs \<le> unread this w" by simp
  with assms(3) have "in_int_range (int (reads cs))" by (simp add: limits_defs)
  from sint_in_range [OF this] inv(1) assms(2) have "sint (readCount this') = int (reads cs)"
    by simp
  with le assms(3) show ?thesis by simp
qed

theorem readCount_no_overflow_witness:
  "reads [ReadInt, ReadInt] \<le> length ''1 2'' \<and> sint (2 :: cxx_int) = 2"
  using readCount_no_overflow [of "[ReadInt, ReadInt]" "new_InStream R_ans ''ans''"
      "start\<lparr>ans_file := opened ''1 2''\<rparr>" "[Int_answer 1, Int_answer 2]"
      "\<lparr>stream = R_ans, name = ''ans'', readCount = 2\<rparr>"
      "start\<lparr>ans_file := (opened ''1 2'')\<lparr>buf := [], eofbit := True\<rparr>\<rparr>"]
  by (simp add: cxx_defs)

end
