(* ===== verification/Reader_Loops.thy ===== *)
theory Reader_Loops
  imports Reader_Runs
begin

text \<open>
  The loop every sequence checker is built on: read integers until \<^verbatim>\<open>seekEof\<close>
  answers true,

  \<^verbatim>\<open>while (!in.seekEof()) v.push_back(in.readInt());\<close>

  \<open>read_ints\<close> is that loop on a reader. It is a recursive function whose
  termination rests on the reader: \<open>seekEof\<close> adds no character and a \<open>readInt\<close>
  that returns has consumed one. \<open>ints_of\<close> is what the loop promises, stated
  on the text of the file: the integers it holds when it is a sequence of
  integer tokens in range separated by whitespace.

  \<open>read_until_eof\<close> is the same loop with any call of the reader as its body,

  \<^verbatim>\<open>while (!in.seekEof()) v.push_back(in.call());\<close>

  as a partial function, because it does not end for every body: with a read
  as the body it always ends, by an exit or at the end of the file; with
  \<^verbatim>\<open>seekEof\<close> as the body it runs forever once a token is in the way.
\<close>

section \<open>The loop and its specification\<close>

function read_ints :: "InStream \<Rightarrow> (cxx_int list \<times> InStream) prog" where
  "read_ints this w =
     (case seekEof this w of
        Inl e \<Rightarrow> Inl e
      | Inr ((at_end, t), w1) \<Rightarrow>
          if at_end then Inr (([], t), w1)
          else (case readInt t w1 of
                  Inl e \<Rightarrow> Inl e
                | Inr ((v, t2), w2) \<Rightarrow>
                    (case read_ints t2 w2 of
                       Inl e \<Rightarrow> Inl e
                     | Inr ((vs, t3), w3) \<Rightarrow> Inr ((v # vs, t3), w3))))"
  by pat_completeness auto

lemma read_ints_measure:
  assumes "seekEof this w = Inr ((b, t), w1)" and "readInt t w1 = Inr ((v, t2), w2)"
  shows "unread t2 w2 < unread this w"
  using seekEof_step [OF assms(1)]
    read_with_step [OF extractor_ok_int assms(2) [unfolded readInt_read_with]]
  by (auto simp: step_ok_def unread_def)

termination read_ints
  by (relation "measure (\<lambda>(this, w). unread this w)") (auto dest: read_ints_measure)

declare read_ints.simps [simp del]

function ints_of :: "string \<Rightarrow> int list option" where
  "ints_of cs =
     (if \<forall>c \<in> set cs. isspace c then Some []
      else case next_int cs of
        None \<Rightarrow> None
      | Some (v, r) \<Rightarrow> map_option ((#) v) (ints_of r))"
  by pat_completeness auto

termination ints_of
  by (relation "measure length") (auto dest: next_int_consumes)

declare ints_of.simps [simp del]

partial_function (option) read_until_eof ::
  "call \<Rightarrow> InStream \<Rightarrow> world \<Rightarrow> (answer list \<times> InStream) result option" where
  "read_until_eof c this w =
     (case seekEof this w of
        Inl e \<Rightarrow> Some (Inl e)
      | Inr ((at_end, t), w1) \<Rightarrow>
          if at_end then Some (Inr (([], t), w1))
          else (case perform c t w1 of
                  Inl e \<Rightarrow> Some (Inl e)
                | Inr ((a, t2), w2) \<Rightarrow>
                    Option.bind (read_until_eof c t2 w2)
                      (\<lambda>r. Some (case r of
                         Inl e \<Rightarrow> Inl e
                       | Inr ((as, t3), w3) \<Rightarrow> Inr ((a # as, t3), w3)))))"

section \<open>One turn of the loop\<close>

lemma next_int_dropWhile [simp]: "next_int (dropWhile isspace cs) = next_int cs"
  by (simp add: next_int_def)

lemma read_ints_at_end:
  assumes "live (get_stream (stream this) w)"
    and "\<forall>c \<in> set (buf (get_stream (stream this) w)). isspace c"
  shows "read_ints this w =
      Inr (([], this), put_stream (stream this) (ws (get_stream (stream this) w)) w)"
    and "buf (ws (get_stream (stream this) w)) = []"
proof -
  let ?s = "get_stream (stream this) w"
  from eof_ws_iff [OF assms(1)] assms(2) have e: "eof (ws ?s)" by simp
  then show "read_ints this w = Inr (([], this), put_stream (stream this) (ws ?s) w)"
    by (subst read_ints.simps) (simp add: seekEof_def Let_def)
  from live_ws [OF assms(1)] e show "buf (ws ?s) = []"
    by (auto simp: live_def wf_stream_def eof_def)
qed

lemma live_more_input:
  assumes "live s" and "\<not> (\<forall>c \<in> set (buf s). isspace c)"
  shows "good s" and "is_open s" and "dropWhile isspace (buf s) \<noteq> []"
proof -
  from assms(2) have ne: "buf s \<noteq> []" by auto
  with assms(1) show "good s" using live_not_good(2) by blast
  from assms(1) ne show "is_open s" by (auto simp: live_def wf_stream_def)
  from assms(2) show "dropWhile isspace (buf s) \<noteq> []" by (simp add: dropWhile_Nil_iff)
qed

lemma seekEof_more_input:
  assumes "live (get_stream (stream this) w)"
    and "\<not> (\<forall>c \<in> set (buf (get_stream (stream this) w)). isspace c)"
  shows "seekEof this w =
    Inr ((False, this), put_stream (stream this)
      ((get_stream (stream this) w)\<lparr>buf := dropWhile isspace (buf (get_stream (stream this) w))\<rparr>) w)"
proof -
  let ?s = "get_stream (stream this) w"
  note more = live_more_input [OF assms]
  from more(1,3) have "ws ?s = ?s\<lparr>buf := dropWhile isspace (buf ?s)\<rparr>"
    by (cases ?s) (simp add: ws_good good_def del: dropWhile_eq_Nil_conv)
  moreover from more(3) have "\<not> eof (?s\<lparr>buf := dropWhile isspace (buf ?s)\<rparr>)"
    using more(1) by (simp add: eof_def good_def)
  ultimately show ?thesis by (simp add: seekEof_def Let_def)
qed

lemma read_ints_rejects:
  assumes "live (get_stream (stream this) w)"
    and "\<not> (\<forall>c \<in> set (buf (get_stream (stream this) w)). isspace c)"
    and "next_int (buf (get_stream (stream this) w)) = None"
  shows "exit_status (read_ints this w) = Some code_pe"
proof -
  let ?s = "get_stream (stream this) w"
  let ?w1 = "put_stream (stream this) (?s\<lparr>buf := dropWhile isspace (buf ?s)\<rparr>) w"
  note more = live_more_input [OF assms(1,2)]
  have "good (get_stream (stream this) ?w1)" "next_int (buf (get_stream (stream this) ?w1)) = None"
    using more(1) assms(3) by (simp_all add: good_def)
  from readInt_rejects [OF this] show ?thesis
    by (subst read_ints.simps)
      (auto simp: seekEof_more_input [OF assms(1,2)] exit_status_def returns_def
        split: sum.splits stop.splits)
qed

lemma read_ints_step:
  assumes "live (get_stream (stream this) w)"
    and "\<not> (\<forall>c \<in> set (buf (get_stream (stream this) w)). isspace c)"
    and "next_int (buf (get_stream (stream this) w)) = Some (v, r)"
  shows "read_ints this w =
    (case read_ints (this\<lparr>readCount := readCount this + 1\<rparr>)
            (put_stream (stream this)
              ((get_stream (stream this) w)\<lparr>buf := r, eofbit := (r = [])\<rparr>) w) of
       Inl e \<Rightarrow> Inl e
     | Inr ((vs, t3), w3) \<Rightarrow> Inr ((word_of_int v # vs, t3), w3))"
proof -
  let ?s = "get_stream (stream this) w"
  let ?w1 = "put_stream (stream this) (?s\<lparr>buf := dropWhile isspace (buf ?s)\<rparr>) w"
  note more = live_more_input [OF assms(1,2)]
  have "good (get_stream (stream this) ?w1)"
    "next_int (buf (get_stream (stream this) ?w1)) = Some (v, r)"
    using more(1) assms(3) by (simp_all add: good_def)
  from readInt_next_int [OF this] show ?thesis
    by (subst read_ints.simps) (simp add: seekEof_more_input [OF assms(1,2)])
qed

section \<open>The loop against its specification\<close>

lemma ints_of_blank: "\<forall>c \<in> set cs. isspace c \<Longrightarrow> ints_of cs = Some []"
  by (subst ints_of.simps) simp

lemma ints_of_token:
  "\<not> (\<forall>c \<in> set cs. isspace c) \<Longrightarrow>
   ints_of cs = (case next_int cs of None \<Rightarrow> None | Some (v, r) \<Rightarrow> map_option ((#) v) (ints_of r))"
  by (subst ints_of.simps) auto

lemma live_after_int:
  assumes "live s" and "\<not> (\<forall>c \<in> set (buf s). isspace c)"
  shows "live (s\<lparr>buf := r, eofbit := (r = [])\<rparr>)"
  using live_more_input [OF assms] assms(1) by (auto simp: live_def wf_stream_def good_def)

text \<open>
  C12: The loop that reads integers until \<open>seekEof\<close> implements \<open>ints_of\<close>: on a
  live stream whose unread text is a sequence of integer tokens in range
  separated by whitespace it returns exactly those integers, in order, with
  one read counted for each and the whole text consumed; on any other text it
  exits with code 2. It always ends.
\<close>

theorem read_ints_refines_ints_of:
  assumes "live (get_stream (stream this) w)"
  shows "case ints_of (buf (get_stream (stream this) w)) of
      Some vs \<Rightarrow>
        \<exists>w'. read_ints this w =
                Inr ((map word_of_int vs,
                      this\<lparr>readCount := readCount this + of_nat (length vs)\<rparr>), w')
          \<and> buf (get_stream (stream this) w') = []
    | None \<Rightarrow> exit_status (read_ints this w) = Some code_pe"
  using assms
proof (induction "buf (get_stream (stream this) w)" arbitrary: this w rule: ints_of.induct)
  case 1
  let ?s = "get_stream (stream this) w"
  show ?case
  proof (cases "\<forall>c \<in> set (buf ?s). isspace c")
    case True
    from read_ints_at_end [OF "1.prems" True] ints_of_blank [OF True] show ?thesis by simp
  next
    case False
    show ?thesis
    proof (cases "next_int (buf ?s)")
      case None
      with read_ints_rejects [OF "1.prems" False] ints_of_token [OF False] show ?thesis by simp
    next
      case (Some p)
      obtain v r where p: "p = (v, r)" by (cases p)
      let ?t = "this\<lparr>readCount := readCount this + 1\<rparr>"
      let ?w2 = "put_stream (stream this) (?s\<lparr>buf := r, eofbit := (r = [])\<rparr>) w"
      have "case ints_of (buf (get_stream (stream ?t) ?w2)) of
          Some vs \<Rightarrow>
            \<exists>w'. read_ints ?t ?w2 =
                Inr ((map word_of_int vs, ?t\<lparr>readCount := readCount ?t + of_nat (length vs)\<rparr>), w')
              \<and> buf (get_stream (stream ?t) w') = []
        | None \<Rightarrow> exit_status (read_ints ?t ?w2) = Some code_pe"
        using Some p False live_after_int [OF "1.prems" False, of r]
        by (intro "1.hyps") simp_all
      with read_ints_step [OF "1.prems" False, of v r] Some p ints_of_token [OF False]
      show ?thesis
        by (auto simp: exit_status_def split: option.splits sum.splits stop.splits)
    qed
  qed
qed

theorem read_ints_refines_ints_of_witness:
  "\<exists>w'. read_ints (new_InStream R_ans ''ans'') (start\<lparr>ans_file := opened ''1 -2 ''\<rparr>) =
      Inr (([1, - 2], \<lparr>stream = R_ans, name = ''ans'', readCount = 2\<rparr>), w')
    \<and> buf (ans_file w') = []"
  using read_ints_refines_ints_of [of "new_InStream R_ans ''ans''"
      "start\<lparr>ans_file := opened ''1 -2 ''\<rparr>"]
  by (simp add: cxx_defs live_def wf_stream_def ints_of.simps)

section \<open>The loop over any read ends\<close>

lemma seekEof_returns:
  obtains w1 where "seekEof this w = Inr ((eof (get_stream (stream this) w1), this), w1)"
    and "unread this w1 \<le> unread this w"
proof -
  let ?w1 = "put_stream (stream this) (ws (get_stream (stream this) w)) w"
  have eq: "seekEof this w = Inr ((eof (get_stream (stream this) ?w1), this), ?w1)"
    by (simp add: seekEof_def Let_def)
  from seekEof_step [OF eq] have "unread this ?w1 \<le> unread this w"
    by (simp add: step_ok_def)
  with eq show thesis by (rule that)
qed

text \<open>
  C14: The loop that reads until \<open>seekEof\<close> always ends when its body is a read,
  whatever the file holds and whichever read it is: it exits with code 2, or
  it returns at the end of the file with one answer for each read the counter
  has counted.
\<close>

theorem read_until_eof_ends:
  assumes "is_read c"
  shows "\<exists>r. read_until_eof c this w = Some r \<and>
    (case r of
       Inl e \<Rightarrow> (\<exists>w'. e = Exit code_pe w')
     | Inr ((as, t), w') \<Rightarrow>
         eof (get_stream (stream this) w') \<and>
         t = this\<lparr>readCount := readCount this + of_nat (length as)\<rparr>)"
    (is "\<exists>r. _ = Some r \<and> ?done this r")
proof (induction "unread this w" arbitrary: this w rule: less_induct)
  case less
  obtain w1 where se: "seekEof this w = Inr ((eof (get_stream (stream this) w1), this), w1)"
    and le: "unread this w1 \<le> unread this w"
    by (rule seekEof_returns)
  show ?case
  proof (cases "eof (get_stream (stream this) w1)")
    case True
    with se show ?thesis
      by (subst read_until_eof.simps) simp
  next
    case False
    show ?thesis
    proof (cases "perform c this w1")
      case (Inl e)
      with perform_exits [OF Inl] se False show ?thesis
        by (subst read_until_eof.simps) auto
    next
      case (Inr p)
      obtain a t2 w2 where p: "p = ((a, t2), w2)" by (cases p) auto
      note step = perform_step [OF Inr [unfolded p], unfolded step_ok_def]
      from step assms le have "unread t2 w2 < unread this w" by (auto simp: unread_def)
      from less [OF this] obtain r where r: "read_until_eof c t2 w2 = Some r"
        and rest: "?done t2 r" by blast
      from step assms have t2: "t2 = this\<lparr>readCount := readCount this + 1\<rparr>" by simp
      from rest have "?done this
          (case r of Inl e \<Rightarrow> Inl e | Inr ((as, t3), w3) \<Rightarrow> Inr ((a # as, t3), w3))"
        by (auto simp: t2 split: sum.splits)
      with se False Inr p r show ?thesis
        by (subst read_until_eof.simps) (auto split: sum.splits)
    qed
  qed
qed

theorem read_until_eof_ends_witness:
  "read_until_eof ReadString (new_InStream R_ans ''ans'') (start\<lparr>ans_file := opened ''a b''\<rparr>) =
     Some (Inr (([String_answer ''a'', String_answer ''b''],
                 \<lparr>stream = R_ans, name = ''ans'', readCount = 2\<rparr>),
                start\<lparr>ans_file := (opened ''a b'')\<lparr>buf := [], eofbit := True,
                                    failbit := True\<rparr>\<rparr>))"
  using read_until_eof_ends [of ReadString "new_InStream R_ans ''ans''"
      "start\<lparr>ans_file := opened ''a b''\<rparr>"]
  by (simp add: cxx_defs read_until_eof.simps and_then_def ret_def)

section \<open>The loop over the probe does not end\<close>

text \<open>
  Why the body has to be a read: \<open>seekEof\<close> consumes whitespace only, so a loop
  that probes again instead of reading never gets past the first token. In
  the model the loop has no result.
\<close>

lemma seekEof_stays_stuck:
  assumes "live (get_stream (stream this) w)"
    and "\<not> (\<forall>c \<in> set (buf (get_stream (stream this) w)). isspace c)"
  obtains w1 where "seekEof this w = Inr ((False, this), w1)"
    and "live (get_stream (stream this) w1)"
    and "\<not> (\<forall>c \<in> set (buf (get_stream (stream this) w1)). isspace c)"
proof -
  let ?s = "get_stream (stream this) w"
  let ?w1 = "put_stream (stream this) (?s\<lparr>buf := dropWhile isspace (buf ?s)\<rparr>) w"
  from assms have "seekEof this w = Inr ((False, this), ?w1)"
    by (intro seekEof_more_input) simp_all
  moreover from assms(2) have "\<not> (\<forall>c \<in> set (dropWhile isspace (buf ?s)). isspace c)"
    by (simp flip: dropWhile_Nil_iff del: dropWhile_eq_Nil_conv)
  moreover from this assms live_more_input [of ?s] have "live (get_stream (stream this) ?w1)"
    by (simp add: live_def wf_stream_def good_def)
  ultimately show thesis by (intro that [of ?w1]) simp_all
qed

lemma read_until_eof_probe_diverges:
  assumes "live (get_stream (stream this) w)"
    and "\<not> (\<forall>c \<in> set (buf (get_stream (stream this) w)). isspace c)"
  shows "read_until_eof SeekEof this w = None"
proof (rule ccontr)
  let ?stuck = "\<lambda>this w. live (get_stream (stream this) w) \<and>
    \<not> (\<forall>c \<in> set (buf (get_stream (stream this) w)). isspace c)"
  assume "read_until_eof SeekEof this w \<noteq> None"
  then obtain r where ret: "read_until_eof SeekEof this w = Some r" by auto
  have "\<not> (SeekEof = SeekEof \<and> ?stuck this w)"
  proof (rule read_until_eof.raw_induct
      [where P = "\<lambda>c this w r. \<not> (c = SeekEof \<and> ?stuck this w)", OF _ ret])
    fix f c this w r
    assume IH: "\<And>c this w r. f c this w = Some r \<Longrightarrow> \<not> (c = SeekEof \<and> ?stuck this w)"
      and eq: "(case seekEof this w of
          Inl e \<Rightarrow> Some (Inl e)
        | Inr ((at_end, t), w1) \<Rightarrow>
            if at_end then Some (Inr (([], t), w1))
            else (case perform c t w1 of
                    Inl e \<Rightarrow> Some (Inl e)
                  | Inr ((a, t2), w2) \<Rightarrow>
                      Option.bind (f c t2 w2)
                        (\<lambda>r. Some (case r of
                           Inl e \<Rightarrow> Inl e
                         | Inr ((as, t3), w3) \<Rightarrow> Inr ((a # as, t3), w3))))) = Some r"
    show "\<not> (c = SeekEof \<and> ?stuck this w)"
    proof
      assume stuck: "c = SeekEof \<and> ?stuck this w"
      then obtain w1 where 1: "seekEof this w = Inr ((False, this), w1)" and "?stuck this w1"
        by (blast elim: seekEof_stays_stuck)
      then obtain w2 where 2: "seekEof this w1 = Inr ((False, this), w2)" and s2: "?stuck this w2"
        by (blast elim: seekEof_stays_stuck)
      from eq 1 2 stuck obtain r' where "f SeekEof this w2 = Some r'"
        by (auto simp: and_then_def ret_def Option.bind_eq_Some_conv)
      from IH [OF this] s2 show False by simp
    qed
  qed
  with assms show False by simp
qed

end
