(* ===== verification/Float_Literals.thy ===== *)
theory Float_Literals
  imports Num_Get_Float
begin

text \<open>
  Decimal literals and the scan of stage 2. \<open>decimal_literal\<close> says what a
  floating-point token is and which number it denotes, by the parts of the
  text alone: a sign, digits, a point with digits, an exponent with its own
  sign, with at least one digit before the exponent; the number is the digits
  times a power of ten. The theory shows that \<^verbatim>\<open>operator>>(double&)\<close> takes
  exactly such a literal when whitespace or the end of the file follows it,
  that the field it builds, in which the leading zeros are one \<^verbatim>\<open>0\<close> and the
  exponent letter is \<^verbatim>\<open>e\<close>, is read by \<^verbatim>\<open>strtod\<close> as the same number, and that
  the \<^verbatim>\<open>double\<close> stored is the one nearest to it.
\<close>

section \<open>The parts of a literal\<close>

definition point_part :: "string \<Rightarrow> string \<Rightarrow> bool" where
  "point_part dp fp \<longleftrightarrow>
     (\<forall>c \<in> set fp. isdigit c) \<and> (dp = [] \<and> fp = [] \<or> dp = CHR ''.'' # fp)"

text \<open>
  The exponent as written, as the scan stores it, and its value. \<open>signed_val\<close>
  is the value of a sign and digits.
\<close>

definition exponent_part :: "string \<Rightarrow> string \<Rightarrow> int \<Rightarrow> bool" where
  "exponent_part ex ex' xe \<longleftrightarrow>
     ex = [] \<and> ex' = [] \<and> xe = 0 \<or>
     (\<exists>c sx dx. (c = CHR ''e'' \<or> c = CHR ''E'') \<and> sx \<in> {[], ''+'', ''-''} \<and> dx \<noteq> [] \<and>
        (\<forall>c \<in> set dx. isdigit c) \<and> ex = c # sx @ dx \<and> ex' = CHR ''e'' # sx @ dx \<and>
        xe = signed_val sx dx)"

definition ends_token :: "string \<Rightarrow> bool" where
  "ends_token r \<longleftrightarrow> r = [] \<or> isspace (hd r)"

text \<open>
  \<open>decimal_literal lit neg N E\<close>: the text \<open>lit\<close> is a literal and denotes \<open>N \<times> 10\<^sup>E\<close>,
  negated when \<open>neg\<close>.
\<close>

inductive decimal_literal :: "string \<Rightarrow> bool \<Rightarrow> nat \<Rightarrow> int \<Rightarrow> bool" where
  literal: "sg \<in> {[], ''+'', ''-''} \<Longrightarrow> \<forall>c \<in> set ip. isdigit c \<Longrightarrow> point_part dp fp \<Longrightarrow>
    ip \<noteq> [] \<or> fp \<noteq> [] \<Longrightarrow> exponent_part ex ex' xe \<Longrightarrow>
    decimal_literal (sg @ ip @ dp @ ex) (sg = ''-'') (dec_val (ip @ fp)) (xe - int (length fp))"

inductive_cases decimal_literalE: "decimal_literal lit neg N E"

lemmas literal_defs = point_part_def exponent_part_def ends_token_def

lemma exponent_partI:
  assumes "c = CHR ''e'' \<or> c = CHR ''E''" and "sx \<in> {[], ''+'', ''-''}" and "dx \<noteq> []"
    and "\<forall>c \<in> set dx. isdigit c"
  shows "exponent_part (c # sx @ dx) (CHR ''e'' # sx @ dx) (signed_val sx dx)"
  unfolding exponent_part_def using assms by blast

section \<open>Characters\<close>

lemma digit_not_float_char:
  assumes "isdigit c"
  shows "c \<noteq> CHR ''.''" "c \<noteq> CHR ''e''" "c \<noteq> CHR ''E''" "c \<noteq> CHR ''+''" "c \<noteq> CHR ''-''"
  using assms by (auto simp: isdigit_def)

lemma space_not_float_char:
  assumes "isspace c"
  shows "\<not> isdigit c" "c \<noteq> CHR ''.''" "c \<noteq> CHR ''e''" "c \<noteq> CHR ''E''" "c \<noteq> CHR ''0''"
  using assms by (auto simp: isspace_def isdigit_def)

lemma float_char_not_digit [simp]:
  "\<not> isdigit (CHR ''.'')" "\<not> isdigit (CHR ''e'')" "\<not> isdigit (CHR ''E'')"
  by (simp_all add: isdigit_def)

lemma takeWhile_append_stop:
  "ys = [] \<or> \<not> P (hd ys) \<Longrightarrow> takeWhile P (xs @ ys) = takeWhile P xs"
  by (induction xs) (auto simp: takeWhile_stops)

lemma dropWhile_append_stop:
  "ys = [] \<or> \<not> P (hd ys) \<Longrightarrow> dropWhile P (xs @ ys) = dropWhile P xs @ ys"
  by (induction xs) (auto simp: dropWhile_stops)

lemma dec_val_zeros: "\<forall>c \<in> set zs. c = CHR ''0'' \<Longrightarrow> dec_val (zs @ ds) = dec_val ds"
  by (induction zs) (simp_all add: dec_val_def digit_val_def)

lemma take_sign_parts:
  assumes "sg \<in> {[], ''+'', ''-''}" and "r = [] \<or> hd r \<noteq> CHR ''+'' \<and> hd r \<noteq> CHR ''-''"
  shows "take_sign (sg @ r) = (sg, r)"
  using assms by (cases r) auto

section \<open>The scan of the parts\<close>

lemma float_chars_digits:
  "\<forall>c \<in> set ds. isdigit c \<Longrightarrow>
   float_chars dec sci man (ds @ cs) = apfst ((@) ds) (float_chars dec sci (man \<or> ds \<noteq> []) cs)"
  by (induction ds arbitrary: man) (simp_all add: apfst_def map_prod_def case_prod_beta)

lemma float_chars_stop: "ends_token r \<Longrightarrow> float_chars dec sci man r = ([], r)"
  by (cases r) (auto simp: ends_token_def space_not_float_char)

lemma float_chars_exponent:
  assumes "exponent_part ex ex' xe" and "ends_token r"
  shows "float_chars dec False True (ex @ r) = (ex', r)"
proof (cases "ex = []")
  case True
  with assms show ?thesis by (simp add: exponent_part_def float_chars_stop)
next
  case False
  with assms(1) obtain c sx dx where c: "c = CHR ''e'' \<or> c = CHR ''E''"
    and sx: "sx \<in> {[], ''+'', ''-''}" and dx: "dx \<noteq> []" "\<forall>c \<in> set dx. isdigit c"
    and ex: "ex = c # sx @ dx" "ex' = CHR ''e'' # sx @ dx"
    by (auto simp: exponent_part_def)
  from dx obtain d dx' where d: "dx = d # dx'" "isdigit d" by (cases dx) auto
  have rest: "float_chars dec True True (dx @ r) = (dx, r)"
    using dx(2) assms(2) by (simp add: float_chars_digits float_chars_stop)
  show ?thesis
  proof (cases "sx = []")
    case True
    have "float_chars dec False True (c # d # dx' @ r) =
        apfst ((#) CHR ''e'') (float_chars dec True True (d # dx' @ r))"
      using c digit_not_float_char(4,5) [OF d(2)]
      by (subst float_chars.simps(2)) (auto simp del: float_chars.simps)
    with rest show ?thesis by (simp add: ex True d(1) del: float_chars.simps)
  next
    case False
    with sx obtain s where s: "sx = [s]" "s = CHR ''+'' \<or> s = CHR ''-''" by auto
    have "float_chars dec False True (c # s # dx @ r) =
        apfst (\<lambda>f. CHR ''e'' # s # f) (float_chars dec True True (dx @ r))"
      using c s(2) by (subst float_chars.simps(2)) (auto simp del: float_chars.simps)
    with rest show ?thesis by (simp add: ex s(1) del: float_chars.simps)
  qed
qed

lemma float_chars_mantissa:
  assumes "\<forall>c \<in> set ip. isdigit c" and "point_part dp fp" and "man \<or> ip \<noteq> [] \<or> fp \<noteq> []"
    and "exponent_part ex ex' xe" and "ends_token r"
  shows "float_chars False False man (ip @ dp @ ex @ r) = (ip @ dp @ ex', r)"
proof (cases "dp = []")
  case True
  with assms(2,3) have "man \<or> ip \<noteq> []" by (auto simp: point_part_def)
  with True assms(1) float_chars_exponent [OF assms(4,5)] show ?thesis
    by (simp add: float_chars_digits)
next
  case False
  with assms(2) have dp: "dp = CHR ''.'' # fp" and fp: "\<forall>c \<in> set fp. isdigit c"
    by (auto simp: point_part_def)
  from assms(3) have "(man \<or> ip \<noteq> []) \<or> fp \<noteq> []" by simp
  with assms(1) fp float_chars_exponent [OF assms(4,5)] show ?thesis
    by (simp add: dp float_chars_digits)
qed

text \<open>
  The digits before the point as the scan stores them: the leading zeros as
  one \<^verbatim>\<open>0\<close>, then the rest.
\<close>

lemma scan_float_parts:
  assumes "sg \<in> {[], ''+'', ''-''}" and "\<forall>c \<in> set ip. isdigit c" and "point_part dp fp"
    and "ip \<noteq> [] \<or> fp \<noteq> []" and "exponent_part ex ex' xe" and "ends_token r"
  shows "scan_float (sg @ ip @ dp @ ex @ r) =
    (sg @ (if takeWhile (\<lambda>c. c = CHR ''0'') ip = [] then [] else ''0'')
        @ dropWhile (\<lambda>c. c = CHR ''0'') ip @ dp @ ex', r)"
proof -
  let ?z = "\<lambda>c. c = CHR ''0''"
  let ?rest = "dp @ ex @ r"
  have hd_rest: "?rest = [] \<or> \<not> ?z (hd ?rest)"
    using assms(3,5,6)
    by (auto simp: point_part_def exponent_part_def ends_token_def space_not_float_char)
  have no_sign: "ip @ ?rest = [] \<or> hd (ip @ ?rest) \<noteq> CHR ''+'' \<and> hd (ip @ ?rest) \<noteq> CHR ''-''"
    using assms(2,3,4) by (cases ip) (auto simp: point_part_def digit_not_float_char)
  have zs: "takeWhile ?z (ip @ ?rest) = takeWhile ?z ip"
    "dropWhile ?z (ip @ ?rest) = dropWhile ?z ip @ ?rest"
    using hd_rest by (rule takeWhile_append_stop, rule dropWhile_append_stop)
  have digits: "\<forall>c \<in> set (dropWhile ?z ip). isdigit c"
    using assms(2) by (meson set_dropWhileD)
  have "takeWhile ?z ip \<noteq> [] \<or> dropWhile ?z ip \<noteq> [] \<or> fp \<noteq> []"
    using assms(4) by (metis takeWhile_dropWhile_id append_Nil)
  from float_chars_mantissa [OF digits assms(3) this assms(5,6)]
  show ?thesis
    by (simp add: scan_float_def take_sign_parts [OF assms(1) no_sign] zs)
qed

section \<open>The value of the parts\<close>

lemma exponent_part_value:
  assumes "exponent_part ex ex' xe"
  shows "exponent_of ex' = Some xe" and "ex' = [] \<or> hd ex' = CHR ''e'' \<or> hd ex' = CHR ''E''"
proof -
  from assms consider "ex' = []" "xe = 0"
    | sx dx where "sx \<in> {[], ''+'', ''-''}" "dx \<noteq> []" "list_all isdigit dx"
        "ex' = CHR ''e'' # sx @ dx" "xe = signed_val sx dx"
    by (auto simp: exponent_part_def list_all_iff)
  then show "exponent_of ex' = Some xe"
    by cases (simp_all add: exponent_of_def field_value_literal)
  from assms show "ex' = [] \<or> hd ex' = CHR ''e'' \<or> hd ex' = CHR ''E''"
    by (auto simp: exponent_part_def)
qed

lemma float_literal_parts:
  assumes "sg \<in> {[], ''+'', ''-''}" and "\<forall>c \<in> set ip. isdigit c" and "point_part dp fp"
    and "ex = [] \<or> hd ex = CHR ''e'' \<or> hd ex = CHR ''E''"
  shows "float_literal (sg @ ip @ dp @ ex) =
    (if ip = [] \<and> fp = [] then None
     else case exponent_of ex of
       None \<Rightarrow> None
     | Some x \<Rightarrow>
         let E = x - int (length fp); N = dec_val (ip @ fp) in
         Some (sg = ''-'', if 0 \<le> E then (N * 10 ^ nat E, 1) else (N, 10 ^ nat (- E))))"
proof -
  let ?rest = "ip @ dp @ ex"
  have stop: "dp @ ex = [] \<or> \<not> isdigit (hd (dp @ ex))" "ex = [] \<or> \<not> isdigit (hd ex)"
    using assms(3,4) by (auto simp: point_part_def)
  have no_sign: "?rest = [] \<or> hd ?rest \<noteq> CHR ''+'' \<and> hd ?rest \<noteq> CHR ''-''"
    using assms(2,3,4) by (cases ip) (auto simp: point_part_def digit_not_float_char)
  have ip: "takeWhile isdigit ?rest = ip" "dropWhile isdigit ?rest = dp @ ex"
    using assms(2) stop(1) by (simp_all add: takeWhile_stops dropWhile_stops)
  have dot: "(dp @ ex \<noteq> [] \<and> hd (dp @ ex) = CHR ''.'') \<longleftrightarrow> dp \<noteq> []"
    using assms(3,4) by (auto simp: point_part_def)
  have fp: "(if dp \<noteq> [] then takeWhile isdigit (tl (dp @ ex)) else []) = fp"
    and ex: "(if dp \<noteq> [] then dropWhile isdigit (tl (dp @ ex)) else dp @ ex) = ex"
    using assms(3) stop(2) by (auto simp: point_part_def takeWhile_stops dropWhile_stops)
  show ?thesis
    by (simp only: float_literal_def take_sign_parts [OF assms(1) no_sign] prod.case Let_def
        ip dot fp ex)
qed

lemma fraction_value:
  fixes N :: nat and E :: int
  assumes "(if 0 \<le> E then (N * 10 ^ nat E, 1) else (N, 10 ^ nat (- E))) = (n, d)"
  shows "0 < d" and "real n / real d = real N * 10 powi E"
  using assms by (auto simp: power_int_def field_simps split: if_splits)

section \<open>The scan takes a literal and keeps its value\<close>

lemma float_literal_scanned:
  assumes "sg \<in> {[], ''+'', ''-''}" and "\<forall>c \<in> set ip. isdigit c" and "point_part dp fp"
    and "ip \<noteq> [] \<or> fp \<noteq> []" and "exponent_part ex ex' xe"
    and "ip' = (if takeWhile (\<lambda>c. c = CHR ''0'') ip = [] then [] else ''0'')
               @ dropWhile (\<lambda>c. c = CHR ''0'') ip"
  obtains n d :: nat
    where "float_literal (sg @ ip' @ dp @ ex') = Some (sg = ''-'', n, d)" and "0 < d"
    and "real n / real d = real (dec_val (ip @ fp)) * 10 powi (xe - int (length fp))"
proof -
  let ?z = "\<lambda>c. c = CHR ''0''"
  note ev = exponent_part_value [OF assms(5)]
  have ip': "\<forall>c \<in> set ip'. isdigit c"
    using assms(2) by (auto simp: assms(6) isdigit_def dest: set_dropWhileD)
  have "dec_val (ip' @ fp) = dec_val (dropWhile ?z ip @ fp)"
    unfolding assms(6) by (simp add: dec_val_zeros)
  also have "\<dots> = dec_val (takeWhile ?z ip @ dropWhile ?z ip @ fp)"
    by (rule dec_val_zeros [symmetric]) (auto dest: set_takeWhileD)
  also have "takeWhile ?z ip @ dropWhile ?z ip @ fp = ip @ fp"
    by (simp only: append_assoc [symmetric] takeWhile_dropWhile_id)
  finally have val: "dec_val (ip' @ fp) = dec_val (ip @ fp)" .
  have "ip = [] \<longleftrightarrow> takeWhile ?z ip = [] \<and> dropWhile ?z ip = []"
    by (metis append_is_Nil_conv takeWhile_dropWhile_id)
  then have empty: "ip' = [] \<longleftrightarrow> ip = []" by (simp add: assms(6))
  obtain n d :: nat where frac: "(if 0 \<le> xe - int (length fp)
      then (dec_val (ip @ fp) * 10 ^ nat (xe - int (length fp)), 1)
      else (dec_val (ip @ fp), 10 ^ nat (- (xe - int (length fp))))) = (n, d)"
    by (cases "0 \<le> xe - int (length fp)") simp_all
  have "float_literal (sg @ ip' @ dp @ ex') = Some (sg = ''-'', n, d)"
    using assms(4) frac
    by (simp only: float_literal_parts [OF assms(1) ip' assms(3) ev(2)] ev(1) val empty
        Let_def option.case) simp
  with fraction_value [OF frac] show thesis by (auto intro: that)
qed

lemma scan_decimal_literal:
  assumes "decimal_literal lit neg N E" and "ends_token r"
  obtains fld and n d :: nat
    where "scan_float (lit @ r) = (fld, r)" and "float_literal fld = Some (neg, n, d)"
      and "0 < d" and "real n / real d = real N * 10 powi E"
  using assms(1)
proof (cases rule: decimal_literal.cases)
  case (literal sg ip dp fp ex ex' xe)
  define ip' where "ip' = (if takeWhile (\<lambda>c. c = CHR ''0'') ip = [] then [] else ''0'')
    @ dropWhile (\<lambda>c. c = CHR ''0'') ip"
  from literal(5-9) ip'_def obtain n d :: nat
    where "float_literal (sg @ ip' @ dp @ ex') = Some (sg = ''-'', n, d)" and "0 < d"
      and "real n / real d = real (dec_val (ip @ fp)) * 10 powi (xe - int (length fp))"
    by (rule float_literal_scanned)
  moreover have "scan_float (lit @ r) = (sg @ ip' @ dp @ ex', r)"
    using scan_float_parts [OF literal(5-9) assms(2)] by (simp add: literal(1) ip'_def)
  ultimately show thesis using literal(2-4) by (intro that) simp_all
qed

lemma decimal_literal_start:
  assumes "decimal_literal lit neg N E"
  shows "lit \<noteq> []" and "\<not> isspace (hd lit)"
proof -
  from assms obtain sg ip dp fp ex
    where lit: "lit = sg @ ip @ dp @ ex" and sg: "sg \<in> {[], ''+'', ''-''}"
      and ip: "\<forall>c \<in> set ip. isdigit c" and dp: "point_part dp fp" and man: "ip \<noteq> [] \<or> fp \<noteq> []"
    by (cases rule: decimal_literal.cases) blast
  from dp man have ne: "ip @ dp \<noteq> []" by (auto simp: point_part_def)
  have "\<not> isspace (hd (ip @ dp))"
  proof (cases ip)
    case Nil
    with dp man show ?thesis by (simp add: point_part_def isspace_def)
  next
    case (Cons c cs)
    with ip show ?thesis by (auto dest: digit_not_space)
  qed
  with ne have "\<not> isspace (hd (sg @ ip @ dp @ ex))"
    using sg by (auto simp: hd_append isspace_def simp flip: append_assoc)
  with ne show "lit \<noteq> []" and "\<not> isspace (hd lit)" by (auto simp: lit)
qed

text \<open>
  The \<^verbatim>\<open>double\<close> the reference finds for a literal below the overflow threshold:
  no \<^verbatim>\<open>double\<close> is closer to the number the literal denotes.
\<close>

lemma next_double_literal:
  assumes "\<forall>c \<in> set sp. isspace c" and "decimal_literal lit neg N E" and "ends_token r"
    and "real N * 10 powi E < (2 ^ 54 - 1) * 2 powi 970"
  obtains x where "next_double (sp @ lit @ r) = Some (x, r)" and "negative x = neg"
    and "is_double x"
    and "\<And>y. is_double y \<Longrightarrow>
      \<bar>valof x - (if neg then - 1 else 1) * (real N * 10 powi E)\<bar>
      \<le> \<bar>valof y - (if neg then - 1 else 1) * (real N * 10 powi E)\<bar>"
proof -
  from assms(2,3) obtain fld and n d :: nat where scan: "scan_float (lit @ r) = (fld, r)"
    and lit: "float_literal fld = Some (neg, n, d)" and d: "0 < d"
    and val: "real n / real d = real N * 10 powi E"
    by (rule scan_decimal_literal)
  have skip: "dropWhile isspace (sp @ lit @ r) = lit @ r"
    using assms(1) decimal_literal_start [OF assms(2)] by (rule skip_to_token)
  have "round_to_double n d \<noteq> None"
  proof (cases "n = 0")
    case False
    with assms(4) show ?thesis by (simp add: round_to_double_None_iff d val)
  qed simp
  then obtain m e where rd: "round_to_double n d = Some (m, e)" by auto
  let ?x = "\<lparr>negative = neg, mantissa = m, exponent = e\<rparr>"
  have "next_double (sp @ lit @ r) = Some (?x, r)"
    by (simp add: next_double_def skip scan lit rd)
  moreover have "exact_value (neg, n, d) = (if neg then - 1 else 1) * (real N * 10 powi E)"
    by (simp add: exact_value_def val [symmetric])
  then have "\<bar>valof ?x - (if neg then - 1 else 1) * (real N * 10 powi E)\<bar>
      \<le> \<bar>valof y - (if neg then - 1 else 1) * (real N * 10 powi E)\<bar>" if "is_double y" for y
    using valof_closest [OF d rd is_double_in_precision [OF that], of neg] by (simp only:)
  ultimately show thesis
    using is_double_round [OF d rd, of neg] by (intro that [of ?x]) simp_all
qed

end
