(* ===== verification/Read_Double.thy ===== *)
theory Read_Double
  imports Stream_Reader Float_Literals
begin

text \<open>
  What \<^verbatim>\<open>InStream::readDouble\<close> promises. The method is \<open>read_with\<close> over the
  extractor for \<^verbatim>\<open>double\<close>, so it shares the outcomes, the frame and the
  invariant of the other reads; this theory adds what is particular to it.
  Against the grammar \<open>decimal_literal\<close> of theory \<open>Float_Literals\<close>, which is
  written without the scanner: a literal that stands before whitespace or the
  end of the file and is below the overflow threshold is read whole, and the
  \<^verbatim>\<open>double\<close> returned is one that no \<^verbatim>\<open>double\<close> is closer to the number written.
  Against the reference \<open>next_double\<close>: the method returns exactly when the
  reference finds a number. Of every number returned: it is within half a unit
  in the last place of the decimal number of the field, and no number of the
  precision of a \<^verbatim>\<open>double\<close> is closer, so that a number too large is never
  returned as the largest \<^verbatim>\<open>double\<close>; such a number ends the process.
\<close>

section \<open>\<open>readDouble\<close> against the reference\<close>

lemma readDouble_next_double:
  assumes "good (get_stream (stream this) w)"
    and "next_double (buf (get_stream (stream this) w)) = Some (x, r)"
  shows "readDouble this w =
    Inr ((x, this\<lparr>readCount := readCount this + 1\<rparr>),
         put_stream (stream this) ((get_stream (stream this) w)\<lparr>buf := r, eofbit := (r = [])\<rparr>) w)"
  unfolding readDouble_read_with
  using extract_double_ok [OF assms, of None] assms(1)
  by (intro read_with_value) (simp_all add: fail_def good_def)

lemma readDouble_rejects:
  assumes "good (get_stream (stream this) w)"
    and "next_double (buf (get_stream (stream this) w)) = None"
  shows "exit_status (readDouble this w) = Some code_pe" and "\<not> returns (readDouble this w)"
proof -
  obtain res s where ex: "extract_double None (get_stream (stream this) w) = (res, s)"
    by (cases "extract_double None (get_stream (stream this) w)")
  with fail_extract_double_iff [OF assms(1), of None] assms(2) have "fail s" by simp
  with ex show "exit_status (readDouble this w) = Some code_pe"
    and "\<not> returns (readDouble this w)"
    by (simp_all add: readDouble_read_with read_with_def read_failed_exit)
qed

lemma readDouble_returned:
  assumes "readDouble this w = Inr ((x, this'), w')"
  obtains r where "good (get_stream (stream this) w)"
    and "next_double (buf (get_stream (stream this) w)) = Some (x, r)"
proof -
  note ret = read_with_returned [OF extractor_ok_double assms [unfolded readDouble_read_with]]
  show thesis
  proof (cases "next_double (buf (get_stream (stream this) w))")
    case None
    with fail_extract_double_iff [OF ret(1), of None] ret(2,4) show ?thesis by simp
  next
    case (Some p)
    with extract_double_ok [OF ret(1), of "fst p" "snd p" None] ret(1,2) that [of "snd p"]
    show ?thesis by simp
  qed
qed

section \<open>\<open>readDouble\<close> on a decimal literal\<close>

text \<open>
  C13: When the stream is in good state and holds whitespace, then a decimal
  literal (an optional sign, digits with at most one point and at least one
  digit, an optional exponent \<^verbatim>\<open>e\<close> or \<^verbatim>\<open>E\<close> with an optional sign and digits)
  that denotes a number below \<open>(2\<^sup>5\<^sup>4 - 1) \<times> 2\<^sup>9\<^sup>7\<^sup>0\<close>, followed by whitespace
  or by the end of the file, then \<open>readDouble\<close> returns: it has counted one
  read, the stream is left right after the literal, with the end-of-file bit
  set exactly when the literal ended the file, and the value returned has the
  sign written and is a \<^verbatim>\<open>double\<close> that no \<^verbatim>\<open>double\<close> is closer to the number
  written.
\<close>

theorem readDouble_token:
  assumes "good (get_stream (stream this) w)"
    and "buf (get_stream (stream this) w) = sp @ lit @ r"
    and "\<forall>c \<in> set sp. isspace c"
    and "decimal_literal lit neg N E"
    and "ends_token r"
    and "real N * 10 powi E < (2 ^ 54 - 1) * 2 powi 970"
  shows "\<exists>x. readDouble this w =
        Inr ((x, this\<lparr>readCount := readCount this + 1\<rparr>),
             put_stream (stream this)
               ((get_stream (stream this) w)\<lparr>buf := r, eofbit := (r = [])\<rparr>) w)
    \<and> negative x = neg \<and> is_double x
    \<and> (\<forall>y. is_double y \<longrightarrow>
          \<bar>valof x - (if neg then - 1 else 1) * (real N * 10 powi E)\<bar>
          \<le> \<bar>valof y - (if neg then - 1 else 1) * (real N * 10 powi E)\<bar>)"
  using assms(3-6)
proof (rule next_double_literal)
  fix x
  assume "next_double (sp @ lit @ r) = Some (x, r)"
  then have "next_double (buf (get_stream (stream this) w)) = Some (x, r)"
    by (simp only: assms(2))
  moreover assume "negative x = neg" and "is_double x"
    and "\<And>y. is_double y \<Longrightarrow>
      \<bar>valof x - (if neg then - 1 else 1) * (real N * 10 powi E)\<bar>
      \<le> \<bar>valof y - (if neg then - 1 else 1) * (real N * 10 powi E)\<bar>"
  ultimately show ?thesis using readDouble_next_double [OF assms(1)] by blast
qed

theorem readDouble_token_witness:
  "\<exists>x. readDouble (new_InStream R_ouf ''ouf'') (start\<lparr>ouf_file := opened '' -02.5E0 x''\<rparr>) =
        Inr ((x, \<lparr>stream = R_ouf, name = ''ouf'', readCount = 1\<rparr>),
             start\<lparr>ouf_file := (opened '' -02.5E0 x'')\<lparr>buf := '' x''\<rparr>\<rparr>)
     \<and> negative x \<and> valof x = - (5 / 2)"
proof -
  let ?y = "\<lparr>negative = True, mantissa = 5629499534213120, exponent = - 51\<rparr>"
  have "exponent_part ''E0'' ''e0'' 0"
    using exponent_partI [of "CHR ''E''" "[]" "''0''"] by (simp add: cxx_defs)
  then have lit: "decimal_literal ''-02.5E0'' True 25 (- 1)"
    using decimal_literal.intros [of "''-''" "''02''" "''.5''" "''5''" "''E0''" "''e0''" 0]
    by (simp add: point_part_def cxx_defs)
  have y: "is_double ?y" "valof ?y = - (5 / 2)"
    by (simp_all add: is_double_def valof_def power_int_minus)
  from readDouble_token [of "new_InStream R_ouf ''ouf''"
      "start\<lparr>ouf_file := opened '' -02.5E0 x''\<rparr>" "'' ''" "''-02.5E0''" "'' x''" True 25 "- 1"]
    lit
  obtain x where "readDouble (new_InStream R_ouf ''ouf'')
        (start\<lparr>ouf_file := opened '' -02.5E0 x''\<rparr>) =
      Inr ((x, \<lparr>stream = R_ouf, name = ''ouf'', readCount = 1\<rparr>),
           start\<lparr>ouf_file := (opened '' -02.5E0 x'')\<lparr>buf := '' x''\<rparr>\<rparr>)"
    and "negative x"
    and "\<And>y. is_double y \<Longrightarrow> \<bar>valof x - - (5 / 2)\<bar> \<le> \<bar>valof y - - (5 / 2)\<bar>"
    by (auto simp: cxx_defs literal_defs)
  with y show ?thesis by (intro exI [of _ x]) fastforce
qed

section \<open>Returning exactly when the reference does\<close>

text \<open>
  C15: On a stream in good state, \<open>readDouble\<close> returns exactly when the reference
  \<open>next_double\<close> finds a floating-point number that does not overflow, and then
  it returns that number, has counted one read and has left the stream after
  the number; otherwise it exits with code 2.
\<close>

theorem readDouble_returns_iff:
  assumes "good (get_stream (stream this) w)"
  shows "case next_double (buf (get_stream (stream this) w)) of
      Some (x, r) \<Rightarrow>
        readDouble this w =
          Inr ((x, this\<lparr>readCount := readCount this + 1\<rparr>),
               put_stream (stream this)
                 ((get_stream (stream this) w)\<lparr>buf := r, eofbit := (r = [])\<rparr>) w)
    | None \<Rightarrow> \<not> returns (readDouble this w) \<and> exit_status (readDouble this w) = Some code_pe"
proof (cases "next_double (buf (get_stream (stream this) w))")
  case None
  with readDouble_rejects [OF assms] show ?thesis by simp
next
  case (Some p)
  with readDouble_next_double [OF assms, of "fst p" "snd p"] show ?thesis
    by (simp add: case_prod_beta)
qed

theorem readDouble_returns_iff_witness:
  "readDouble (new_InStream R_ouf ''ouf'') (start\<lparr>ouf_file := opened '' -2.5e0 x''\<rparr>) =
     Inr ((\<lparr>negative = True, mantissa = 5629499534213120, exponent = - 51\<rparr>,
           \<lparr>stream = R_ouf, name = ''ouf'', readCount = 1\<rparr>),
          start\<lparr>ouf_file := (opened '' -2.5e0 x'')\<lparr>buf := '' x''\<rparr>\<rparr>)"
  using readDouble_returns_iff [of "new_InStream R_ouf ''ouf''"
      "start\<lparr>ouf_file := opened '' -2.5e0 x''\<rparr>"]
  apply (simp add: cxx_defs)
  apply (simp add: rounding_eval)
  done

section \<open>The number returned\<close>

text \<open>
  C16: The number \<open>readDouble\<close> returns is the decimal number of the field it
  read, rounded: it has the sign written in the file and differs from the
  exact value of the field by at most half a unit in its last place.
\<close>

theorem readDouble_nearest:
  assumes "readDouble this w = Inr ((x, this'), w')"
  shows "\<exists>q. float_literal (fst (scan_float (dropWhile isspace (buf (get_stream (stream this) w)))))
        = Some q
    \<and> negative x = fst q \<and> \<bar>valof x - exact_value q\<bar> \<le> 2 powi (exponent x - 1)"
proof -
  from assms obtain r where "next_double (buf (get_stream (stream this) w)) = Some (x, r)"
    by (rule readDouble_returned)
  then show ?thesis by (rule next_double_nearest) blast
qed

theorem readDouble_nearest_witness:
  "\<bar>valof \<lparr>negative = False, mantissa = 7205759403792794, exponent = - 56\<rparr> - 1 / 10\<bar>
     \<le> 2 powi (- 57)"
  using readDouble_nearest [of "new_InStream R_ouf ''ouf''"
      "start\<lparr>ouf_file := opened ''0.1''\<rparr>"
      "\<lparr>negative = False, mantissa = 7205759403792794, exponent = - 56\<rparr>"
      "\<lparr>stream = R_ouf, name = ''ouf'', readCount = 1\<rparr>"
      "start\<lparr>ouf_file := (opened ''0.1'')\<lparr>buf := [], eofbit := True\<rparr>\<rparr>"]
  apply (simp add: cxx_defs)
  apply (simp add: rounding_eval)
  done

text \<open>
  C17: The number \<open>readDouble\<close> returns is a finite \<^verbatim>\<open>double\<close> and the best one
  for the field it read: no number with a mantissa of 53 bits, however large
  its exponent, is closer to the exact value of the field. So nothing is
  returned for a field that is no number, and a field whose value lies beyond
  the largest \<^verbatim>\<open>double\<close> is not returned as the largest \<^verbatim>\<open>double\<close>.
\<close>

theorem readDouble_closest:
  assumes "readDouble this w = Inr ((x, this'), w')"
  shows "\<exists>q. float_literal (fst (scan_float (dropWhile isspace (buf (get_stream (stream this) w)))))
        = Some q
    \<and> is_double x
    \<and> (\<forall>y. in_precision y \<longrightarrow> \<bar>valof x - exact_value q\<bar> \<le> \<bar>valof y - exact_value q\<bar>)"
proof -
  from assms obtain r where "next_double (buf (get_stream (stream this) w)) = Some (x, r)"
    by (rule readDouble_returned)
  then show ?thesis by (rule next_double_nearest) blast
qed

theorem readDouble_closest_witness:
  "\<bar>valof \<lparr>negative = False, mantissa = 7205759403792794, exponent = - 56\<rparr> - 1 / 10\<bar>
     \<le> \<bar>valof \<lparr>negative = False, mantissa = 7205759403792793, exponent = - 56\<rparr> - 1 / 10\<bar>"
  using readDouble_closest [of "new_InStream R_ouf ''ouf''"
      "start\<lparr>ouf_file := opened ''0.1''\<rparr>"
      "\<lparr>negative = False, mantissa = 7205759403792794, exponent = - 56\<rparr>"
      "\<lparr>stream = R_ouf, name = ''ouf'', readCount = 1\<rparr>"
      "start\<lparr>ouf_file := (opened ''0.1'')\<lparr>buf := [], eofbit := True\<rparr>\<rparr>"]
  apply (simp add: cxx_defs)
  apply (simp add: rounding_eval)
  done

section \<open>Failures\<close>

text \<open>
  C18: A number too large for a \<^verbatim>\<open>double\<close> is not returned as the largest
  \<^verbatim>\<open>double\<close> or as an infinity: when the field is a literal whose exact value
  is at least \<open>(2\<^sup>5\<^sup>4 - 1) \<times> 2\<^sup>9\<^sup>7\<^sup>0\<close>, the least number that rounds past the
  largest finite \<^verbatim>\<open>double\<close>, \<open>readDouble\<close> exits with code 2, and the line on
  \<^verbatim>\<open>cerr\<close> says "Unexpected EOF" when the number ended the file and "Failed to
  read" otherwise.
\<close>

theorem readDouble_overflow:
  assumes "good (get_stream (stream this) w)"
    and "scan_float (dropWhile isspace (buf (get_stream (stream this) w))) = (fld, r)"
    and "float_literal fld = Some (neg, n, d)"
    and "(2 ^ 54 - 1) * 2 powi 970 \<le> real n / real d"
  shows "readDouble this w =
    exit code_pe
      (cerr_line ((if r = [] then ''Unexpected EOF when reading '' else ''Failed to read '')
                  @ ''double from '' @ name this)
        (put_stream (stream this)
          ((get_stream (stream this) w)\<lparr>buf := r, eofbit := (r = []), failbit := True\<rparr>) w))"
proof -
  let ?s = "get_stream (stream this) w"
  note d = float_literal_denominator [OF assms(3)]
  have n: "0 < n"
  proof (rule ccontr)
    assume "\<not> 0 < n"
    with assms(4) have "(2 ^ 54 - 1) * 2 powi 970 \<le> (0::real)" by simp
    then show False by (simp add: mult_le_0_iff)
  qed
  from assms(4) have "round_to_double n d = None"
    by (simp add: round_to_double_None_iff [OF n d])
  with assms(3) have cv: "convert_to_v fld = (DBL_MAX neg, True)"
    by (simp add: convert_to_v_def)
  have ne: "dropWhile isspace (buf ?s) \<noteq> []"
  proof
    assume "dropWhile isspace (buf ?s) = []"
    with assms(2,3) show False by simp
  qed
  from extract_double_scan [OF assms(1) ne assms(2), of None] cv
  have "extract_double None ?s =
      (Some (DBL_MAX neg), ?s\<lparr>buf := r, eofbit := (r = []), failbit := True\<rparr>)"
    by simp
  then show ?thesis
    unfolding readDouble_read_with
    by (simp add: read_with_def read_failed_exit fail_def eof_def)
qed

theorem readDouble_overflow_witness:
  "readDouble (new_InStream R_ouf ''ouf'') (start\<lparr>ouf_file := opened ''1e309 2''\<rparr>) =
     Inl (Exit 2 (start\<lparr>ouf_file := (opened ''1e309 2'')\<lparr>buf := '' 2'', failbit := True\<rparr>,
                        cerr := ''Failed to read double from ouf'' @ [CHR 0x0A]\<rparr>))"
  using readDouble_overflow [of "new_InStream R_ouf ''ouf''"
      "start\<lparr>ouf_file := opened ''1e309 2''\<rparr>" "''1e309''" "'' 2''" False "10 ^ 309" 1]
  by (simp add: cxx_defs)

text \<open>
  C19: Reading a number when nothing but whitespace is left never yields a
  default value: the process exits with code 2, the diagnostic "Unexpected EOF
  when reading double from" and the reader's name is one line on \<^verbatim>\<open>cerr\<close>, and
  \<^verbatim>\<open>cout\<close> is untouched.
\<close>

theorem readDouble_past_end:
  assumes "live (get_stream (stream this) w)"
    and "\<forall>c \<in> set (buf (get_stream (stream this) w)). isspace c"
  shows "readDouble this w =
    exit code_pe
      (cerr_line (''Unexpected EOF when reading double from '' @ name this)
        (put_stream (stream this)
          ((get_stream (stream this) w)\<lparr>buf := [], eofbit := True, failbit := True\<rparr>) w))"
  unfolding readDouble_read_with
  using extract_double_past_end [OF assms, of None]
  by (intro read_with_past_end [THEN trans]) (simp_all add: fail_def eof_def)

theorem readDouble_past_end_witness:
  "readDouble (new_InStream R_ans ''ans'') (start\<lparr>ans_file := opened '' ''\<rparr>) =
     Inl (Exit 2 (start\<lparr>ans_file := (opened '' '')\<lparr>buf := [], eofbit := True, failbit := True\<rparr>,
                        cerr := ''Unexpected EOF when reading double from ans'' @ [CHR 0x0A]\<rparr>))"
  using readDouble_past_end [of "new_InStream R_ans ''ans''" "start\<lparr>ans_file := opened '' ''\<rparr>"]
  by (simp add: cxx_defs)

end
