(* ===== verification/Verdict_Reporter.thy ===== *)
theory Verdict_Reporter
  imports Process
begin

text \<open>
  \<^verbatim>\<open>quitf\<close>, the call that ends a checker run: it writes the label of the exit
  code and the formatted message as one line to \<^verbatim>\<open>std::cout\<close> and exits with
  the code it was given. The variadic formatting itself is a library call; the
  model takes the text the format and its arguments expand to and applies what
  the source does to it: \<^verbatim>\<open>vsnprintf\<close> into a buffer of 1024 bytes, printed as a
  C string. The verdict kinds of the specification, with their codes and
  labels, are the datatype \<open>verdict\<close>; \<open>quitf\<close> is shown to implement that table.
\<close>

section \<open>The source\<close>

definition label :: "int \<Rightarrow> string" where
  "label exitCode =
     (if exitCode = code_ok then ''OK ''
      else if exitCode = code_wa then ''Wrong Answer ''
      else if exitCode = code_pe then ''Presentation Error ''
      else if exitCode = code_fail then ''FAIL ''
      else if exitCode = code_dirt then ''DIRT ''
      else if exitCode = code_points then ''points ''
      else [])"

definition c_str :: "string \<Rightarrow> string" where
  "c_str cs = takeWhile (\<lambda>c. c \<noteq> CHR 0x00) cs"

definition vsnprintf :: "nat \<Rightarrow> string \<Rightarrow> string" where
  "vsnprintf n formatted = c_str (take (n - 1) formatted)"

definition quitf :: "int \<Rightarrow> string \<Rightarrow> world \<Rightarrow> 'a result" where
  "quitf exitCode formatted w =
     exit exitCode (cout_line (vsnprintf 1024 formatted) (w\<lparr>cout := cout w @ label exitCode\<rparr>))"

definition setName :: "string \<Rightarrow> unit prog" where
  "setName format w = Inr ((), w)"

section \<open>The protocol of the specification\<close>

datatype verdict = Accepted | WrongAnswer | PresentationError | InternalFail | Dirt | PartialScore

fun verdict_code :: "verdict \<Rightarrow> int" where
  "verdict_code Accepted = 0"
| "verdict_code WrongAnswer = 1"
| "verdict_code PresentationError = 2"
| "verdict_code InternalFail = 3"
| "verdict_code Dirt = 4"
| "verdict_code PartialScore = 7"

fun verdict_label :: "verdict \<Rightarrow> string" where
  "verdict_label Accepted = ''OK ''"
| "verdict_label WrongAnswer = ''Wrong Answer ''"
| "verdict_label PresentationError = ''Presentation Error ''"
| "verdict_label InternalFail = ''FAIL ''"
| "verdict_label Dirt = ''DIRT ''"
| "verdict_label PartialScore = ''points ''"

definition verdict_of_code :: "int \<Rightarrow> verdict option" where
  "verdict_of_code c =
     (if c = 0 then Some Accepted else if c = 1 then Some WrongAnswer
      else if c = 2 then Some PresentationError else if c = 3 then Some InternalFail
      else if c = 4 then Some Dirt else if c = 7 then Some PartialScore else None)"

definition reportVerdict :: "verdict \<Rightarrow> string \<Rightarrow> world \<Rightarrow> int \<times> string" where
  "reportVerdict k message w = (verdict_code k, cout w @ verdict_label k @ message @ [CHR 0x0A])"

definition all_verdicts :: "verdict list" where
  "all_verdicts = [Accepted, WrongAnswer, PresentationError, InternalFail, Dirt, PartialScore]"

definition verdict_of_line :: "string \<Rightarrow> verdict option" where
  "verdict_of_line line = find (\<lambda>k. prefix (verdict_label k) line) all_verdicts"

lemmas reporter_defs =
  label_def c_str_def vsnprintf_def quitf_def setName_def verdict_of_code_def reportVerdict_def
  all_verdicts_def verdict_of_line_def

declare reporter_defs [cxx_defs]

section \<open>The verdict table\<close>

lemma verdict_of_code_code [simp]: "verdict_of_code (verdict_code k) = Some k"
  by (cases k) (simp_all add: verdict_of_code_def)

lemma verdict_of_code_SomeD: "verdict_of_code c = Some k \<Longrightarrow> verdict_code k = c"
  by (auto simp: verdict_of_code_def split: if_splits)

lemma verdict_code_inj: "verdict_code k = verdict_code k' \<longleftrightarrow> k = k'"
  by (cases k; cases k') simp_all

lemma label_code [simp]: "label (verdict_code k) = verdict_label k"
  by (cases k) (simp_all add: label_def code_defs)

lemma label_unknown: "verdict_of_code c = None \<Longrightarrow> label c = []"
  by (simp add: verdict_of_code_def label_def code_defs split: if_splits)

lemma verdict_label_not_prefix:
  "prefix (verdict_label k) (verdict_label k' @ rest) \<longleftrightarrow> k = k'"
  by (cases k; cases k') simp_all

section \<open>The buffer\<close>

lemma length_c_str: "length (c_str cs) \<le> length cs"
  by (simp add: c_str_def length_takeWhile_le)

lemma c_str_id: "CHR 0x00 \<notin> set cs \<Longrightarrow> c_str cs = cs"
  by (auto simp: c_str_def takeWhile_eq_all_conv)

lemma length_vsnprintf: "length (vsnprintf n formatted) \<le> n - 1"
  using length_c_str [of "take (n - 1) formatted"] by (simp add: vsnprintf_def)

lemma vsnprintf_fits:
  "length formatted < n \<Longrightarrow> CHR 0x00 \<notin> set formatted \<Longrightarrow> vsnprintf n formatted = formatted"
  by (simp add: vsnprintf_def c_str_id)

lemma vsnprintf_cuts:
  "CHR 0x00 \<notin> set formatted \<Longrightarrow> vsnprintf n formatted = take (n - 1) formatted"
  by (auto simp: vsnprintf_def intro!: c_str_id dest: in_set_takeD)

lemma vsnprintf_prefix: "prefix (vsnprintf n formatted) formatted"
  unfolding vsnprintf_def c_str_def
  by (metis prefix_order.order_trans take_is_prefix takeWhile_is_prefix)

lemma set_vsnprintf: "set (vsnprintf n formatted) \<subseteq> set formatted"
  using vsnprintf_prefix [of n formatted] by (rule set_mono_prefix)

section \<open>\<open>quitf\<close>\<close>

lemma quitf_exit:
  "quitf c formatted w =
     exit c (w\<lparr>cout := cout w @ label c @ vsnprintf 1024 formatted @ [CHR 0x0A]\<rparr>)"
  by (simp add: quitf_def cout_line_def)

lemma reported_quitf [simp]:
  "reported (quitf c formatted w) =
     Some (c, cout w @ label c @ vsnprintf 1024 formatted @ [CHR 0x0A])"
  by (simp add: quitf_exit)

lemma quitf_never_returns [simp]: "\<not> returns (quitf c formatted w)"
  by (simp add: quitf_exit)

lemma protocol_quitf: "c \<in> V \<Longrightarrow> protocol V w (quitf c message w)"
  by (simp add: protocol_def quitf_exit exit_def)

text \<open>
  C4: \<open>quitf\<close> implements the verdict protocol: called with the code of a
  verdict kind and a message that fits the buffer, the process ends with that
  code and standard output has grown by the kind's label, the message and a
  newline.
\<close>

theorem quitf_reportVerdict:
  assumes "length message < 1024" and "CHR 0x00 \<notin> set message"
  shows "reported (quitf (verdict_code k) message w) = Some (reportVerdict k message w)"
  using assms by (simp add: vsnprintf_fits reportVerdict_def)

theorem quitf_reportVerdict_witness:
  "reported (quitf 4 ''extra tokens'' start) = Some (4, ''DIRT extra tokens'' @ [CHR 0x0A])"
  using quitf_reportVerdict [of "''extra tokens''" Dirt start]
  by (simp add: cxx_defs)

text \<open>
  C29: The chain of comparisons in \<open>quitf\<close> is the table of the specification:
  for every integer the label printed is the label of the verdict kind with
  that code, and nothing when no kind has it.
\<close>

theorem label_table:
  "label c = (case verdict_of_code c of None \<Rightarrow> [] | Some k \<Rightarrow> verdict_label k)"
proof (cases "verdict_of_code c")
  case None
  then show ?thesis by (simp add: label_unknown)
next
  case (Some k)
  then have "verdict_code k = c" by (rule verdict_of_code_SomeD)
  with Some label_code [of k] show ?thesis by simp
qed

text \<open>
  C30: Whatever its arguments, \<open>quitf\<close> exits with the code it was given, never
  returns, writes nothing to \<^verbatim>\<open>cerr\<close>, leaves the three streams alone and appends
  to \<^verbatim>\<open>cout\<close> a text that ends in a newline; when the message has no newline the
  text is exactly one line.
\<close>

theorem quitf_outcome:
  "case quitf c message w of
     Inl (Exit c' w') \<Rightarrow>
       c' = c \<and> w'\<lparr>cout := cout w\<rparr> = w \<and>
       (\<exists>line. cout w' = cout w @ line @ [CHR 0x0A] \<and>
          (CHR 0x0A \<in> set line \<longrightarrow> CHR 0x0A \<in> set message))
   | _ \<Rightarrow> False"
proof -
  have "CHR 0x0A \<notin> set (label c)"
    by (simp add: label_def)
  moreover have "CHR 0x0A \<in> set (vsnprintf 1024 message) \<longrightarrow> CHR 0x0A \<in> set message"
    using set_vsnprintf [of 1024 message] by auto
  ultimately show ?thesis
    by (simp add: quitf_exit exit_def exI [of _ "label c @ vsnprintf 1024 message"])
qed

theorem quitf_outcome_witness:
  "case quitf 0 ''ok'' start :: unit result of
     Inl (Exit c' w') \<Rightarrow> c' = 0 \<and> cout w' = ''OK ok'' @ [CHR 0x0A]
   | _ \<Rightarrow> False"
  using quitf_outcome [where c = 0 and message = "''ok''" and w = start]
  by (simp add: cxx_defs)

text \<open>
  C31: The message is cut to the 1023 characters that fit the buffer of 1024
  bytes: a longer message loses its tail without any error, and the line
  written is never longer than the label, 1023 characters and the newline.
\<close>

theorem quitf_truncates:
  assumes "CHR 0x00 \<notin> set message"
  shows "reported (quitf c message w) =
      Some (c, cout w @ label c @ take 1023 message @ [CHR 0x0A])"
  using assms by (simp add: vsnprintf_cuts)

theorem quitf_truncates_witness:
  "reported (quitf 1 (replicate 1030 CHR ''a'') start) =
     Some (1, ''Wrong Answer '' @ replicate 1023 CHR ''a'' @ [CHR 0x0A])"
  using quitf_truncates [of "replicate 1030 CHR ''a''" 1 start]
  by (simp add: cxx_defs)

text \<open>
  A code outside the table is not rejected: \<open>quitf\<close> prints the message
  with no label and exits with that code.
\<close>

lemma quitf_unknown_code:
  assumes "verdict_of_code c = None"
  shows "reported (quitf c message w) = Some (c, cout w @ vsnprintf 1024 message @ [CHR 0x0A])"
  using assms by (simp add: label_unknown)

lemma quitf_unknown_code_example:
  "reported (quitf 5 ''x'' start) = Some (5, ''x'' @ [CHR 0x0A])"
  using quitf_unknown_code [of 5 "''x''" start]
  by (simp add: cxx_defs)

lemma verdict_of_line_label: "verdict_of_line (verdict_label k @ rest) = Some k"
  by (cases k) (simp_all add: verdict_of_line_def all_verdicts_def)

text \<open>
  C32: The verdict kind can be read back from either thing a run leaves
  behind: from the exit code of \<open>quitf\<close>, and from the line it wrote to standard
  output, because no label is the beginning of another.
\<close>

theorem verdict_roundtrip:
  "case reported (quitf (verdict_code k) message w) of
     Some (c, out) \<Rightarrow>
       verdict_of_code c = Some k \<and> verdict_of_line (drop (length (cout w)) out) = Some k
   | None \<Rightarrow> False"
  by (simp add: verdict_of_line_label)

end
