(* ===== verification/Bootstrap.thy ===== *)
theory Bootstrap
  imports Process
begin

text \<open>
  \<^verbatim>\<open>registerTestlibCmd\<close>: the check of the argument count and the opening of the
  three streams. The files that can be opened for reading are a map from paths
  to contents; \<^verbatim>\<open>argc\<close> is the length of \<^verbatim>\<open>argv\<close>, as the C runtime passes them.
  All three streams are opened before the first is checked, as in the source.
\<close>

definition argc :: "string list \<Rightarrow> int" where
  "argc argv = int (length argv)"

definition registerTestlibCmd :: "(path \<rightharpoonup> string) \<Rightarrow> string list \<Rightarrow> unit prog" where
  "registerTestlibCmd fs argv w =
     (if argc argv \<noteq> 4
      then exit code_fail
             (cerr_line ''Usage: checker <input-file> <output-file> <answer-file>''
               (cerr_line ''Invalid number of arguments for checker'' w))
      else
        let w1 = w\<lparr>inf_file := open_file fs (argv ! 1) (inf_file w)\<rparr>;
            w2 = w1\<lparr>ouf_file := open_file fs (argv ! 2) (ouf_file w1)\<rparr>;
            w3 = w2\<lparr>ans_file := open_file fs (argv ! 3) (ans_file w2)\<rparr>
        in if \<not> is_open (inf_file w3)
           then exit code_fail (cerr_line (''Failed to open input file: '' @ argv ! 1) w3)
           else if \<not> is_open (ouf_file w3)
           then exit code_fail (cerr_line (''Failed to open output file: '' @ argv ! 2) w3)
           else if \<not> is_open (ans_file w3)
           then exit code_fail (cerr_line (''Failed to open answer file: '' @ argv ! 3) w3)
           else Inr ((), w3))"

text \<open>
  The state a checker starts in: no stream has been opened yet.
\<close>

definition fresh :: "world \<Rightarrow> bool" where
  "fresh w \<longleftrightarrow> \<not> is_open (inf_file w) \<and> \<not> is_open (ouf_file w) \<and> \<not> is_open (ans_file w)"

lemmas bootstrap_defs = argc_def registerTestlibCmd_def

declare bootstrap_defs [cxx_defs]

section \<open>The two phases\<close>

text \<open>
  The state after the three calls of \<^verbatim>\<open>open\<close>, and the check that follows, as
  the proofs below see them.
\<close>

lemma open_file_fresh:
  "\<not> is_open s \<Longrightarrow>
   open_file fs p s = (case fs p of None \<Rightarrow> s\<lparr>failbit := True\<rparr> | Some cs \<Rightarrow> opened cs)"
  by (cases s) (simp add: open_file_def opened_def split: option.splits)

lemma open_file_again: "is_open s \<Longrightarrow> open_file fs p s = s\<lparr>failbit := True\<rparr>"
  by (simp add: open_file_def)

lemma register_bad_argc:
  "length argv \<noteq> 4 \<Longrightarrow>
   registerTestlibCmd fs argv w =
     exit code_fail
       (w\<lparr>cerr := cerr w @ ''Invalid number of arguments for checker'' @ [CHR 0x0A]
            @ ''Usage: checker <input-file> <output-file> <answer-file>'' @ [CHR 0x0A]\<rparr>)"
  by (simp add: registerTestlibCmd_def argc_def cerr_line_def)

lemma register_opened:
  assumes "length argv = 4"
  shows "registerTestlibCmd fs argv w =
    (let w3 = w\<lparr>inf_file := open_file fs (argv ! 1) (inf_file w),
                 ouf_file := open_file fs (argv ! 2) (ouf_file w),
                 ans_file := open_file fs (argv ! 3) (ans_file w)\<rparr>
     in if \<not> is_open (inf_file w3)
        then exit code_fail (cerr_line (''Failed to open input file: '' @ argv ! 1) w3)
        else if \<not> is_open (ouf_file w3)
        then exit code_fail (cerr_line (''Failed to open output file: '' @ argv ! 2) w3)
        else if \<not> is_open (ans_file w3)
        then exit code_fail (cerr_line (''Failed to open answer file: '' @ argv ! 3) w3)
        else Inr ((), w3))"
  using assms by (simp add: registerTestlibCmd_def argc_def Let_def)

lemma fresh_start [simp]: "fresh start"
  by (simp add: fresh_def start_def closed_def)

lemma is_open_fresh:
  "\<not> is_open s \<Longrightarrow> is_open (open_file fs p s) \<longleftrightarrow> fs p \<noteq> None"
  by (simp add: is_open_open_file)

lemma protocol_register: "protocol V w (registerTestlibCmd fs argv w)"
proof (cases "length argv = 4")
  case True
  then show ?thesis
    by (simp add: protocol_def register_opened Let_def exit_def cerr_line_def)
next
  case False
  then show ?thesis
    by (simp add: protocol_def register_bad_argc exit_def)
qed

text \<open>
  C9: With three path arguments that name readable files and the streams not
  yet open, \<open>registerTestlibCmd\<close> returns, and each stream is open on the
  contents of its file, in good state, with nothing read. Nothing is written.
\<close>

theorem registerTestlibCmd_opens:
  assumes "length argv = 4" and "fresh w"
    and "fs (argv ! 1) = Some i" and "fs (argv ! 2) = Some p" and "fs (argv ! 3) = Some a"
  shows "registerTestlibCmd fs argv w =
    Inr ((), w\<lparr>inf_file := opened i, ouf_file := opened p, ans_file := opened a\<rparr>)"
  using assms by (simp add: register_opened open_file_fresh fresh_def)

theorem registerTestlibCmd_opens_witness:
  "registerTestlibCmd [''in'' \<mapsto> ''3 5'', ''out'' \<mapsto> ''8'', ''ans'' \<mapsto> ''8'']
      [''checker'', ''in'', ''out'', ''ans''] start =
    Inr ((), start\<lparr>inf_file := opened ''3 5'', ouf_file := opened ''8'', ans_file := opened ''8''\<rparr>)"
  using registerTestlibCmd_opens [of "[''checker'', ''in'', ''out'', ''ans'']" start
      "[''in'' \<mapsto> ''3 5'', ''out'' \<mapsto> ''8'', ''ans'' \<mapsto> ''8'']" "''3 5''" "''8''" "''8''"]
  by (simp add: cxx_defs fresh_def)

text \<open>
  C5: With any number of arguments other than the program name and three
  paths, \<open>registerTestlibCmd\<close> exits with code 3 after writing the two usage lines
  to \<^verbatim>\<open>cerr\<close>; no stream is opened and \<^verbatim>\<open>cout\<close> is untouched.
\<close>

theorem registerTestlibCmd_bad_argc:
  assumes "length argv \<noteq> 4"
  shows "registerTestlibCmd fs argv w =
    Inl (Exit 3
      (w\<lparr>cerr := cerr w @ ''Invalid number of arguments for checker'' @ [CHR 0x0A]
           @ ''Usage: checker <input-file> <output-file> <answer-file>'' @ [CHR 0x0A]\<rparr>))"
  using assms by (simp add: register_bad_argc exit_def code_fail_def)

theorem registerTestlibCmd_bad_argc_witness:
  "registerTestlibCmd Map.empty [''checker'', ''in'', ''out''] start =
    Inl (Exit 3
      (start\<lparr>cerr := ''Invalid number of arguments for checker'' @ [CHR 0x0A]
           @ ''Usage: checker <input-file> <output-file> <answer-file>'' @ [CHR 0x0A]\<rparr>))"
  using registerTestlibCmd_bad_argc [of "[''checker'', ''in'', ''out'']" Map.empty start]
  by (simp add: cxx_defs)

text \<open>
  C10: With three path arguments and the streams not yet open, the bootstrap
  fails exactly when one of the files cannot be opened; it then exits with
  code 3 and the one line on \<^verbatim>\<open>cerr\<close> names the first file, in the order input,
  output, answer, that is missing, also when later ones are missing too.
\<close>

theorem registerTestlibCmd_missing:
  assumes "length argv = 4" and "fresh w"
  shows "exit_status (registerTestlibCmd fs argv w) =
      (if fs (argv ! 1) = None \<or> fs (argv ! 2) = None \<or> fs (argv ! 3) = None
       then Some code_fail else None)
    \<and> map_option cerr (final_world (registerTestlibCmd fs argv w)) =
      Some (cerr w @
        (if fs (argv ! 1) = None then ''Failed to open input file: '' @ argv ! 1 @ [CHR 0x0A]
         else if fs (argv ! 2) = None then ''Failed to open output file: '' @ argv ! 2 @ [CHR 0x0A]
         else if fs (argv ! 3) = None then ''Failed to open answer file: '' @ argv ! 3 @ [CHR 0x0A]
         else []))"
  using assms
  by (simp add: register_opened is_open_fresh fresh_def Let_def exit_status_def final_world_def
      exit_def cerr_line_def)

theorem registerTestlibCmd_missing_witness:
  "exit_status (registerTestlibCmd [''in'' \<mapsto> ''3 5'']
      [''checker'', ''in'', ''out'', ''ans''] start) = Some 3
   \<and> map_option cerr (final_world (registerTestlibCmd [''in'' \<mapsto> ''3 5'']
      [''checker'', ''in'', ''out'', ''ans''] start)) =
     Some (''Failed to open output file: out'' @ [CHR 0x0A])"
  using registerTestlibCmd_missing [of "[''checker'', ''in'', ''out'', ''ans'']" start
      "[''in'' \<mapsto> ''3 5'']"]
  by (simp add: cxx_defs fresh_def)

text \<open>
  Whatever its arguments and the state, the bootstrap either returns,
  with four arguments, all three streams open and nothing written, or exits
  with code 3 after writing to \<^verbatim>\<open>cerr\<close> only.
\<close>

lemma registerTestlibCmd_outcomes:
  "case registerTestlibCmd fs argv w of
     Inl (Exit c w') \<Rightarrow> c = code_fail \<and> cout w' = cout w \<and> cerr w' \<noteq> cerr w
   | Inl Undefined_Behaviour \<Rightarrow> False
   | Inr (u, w') \<Rightarrow>
       length argv = 4 \<and> cout w' = cout w \<and> cerr w' = cerr w \<and>
       is_open (inf_file w') \<and> is_open (ouf_file w') \<and> is_open (ans_file w')"
proof (cases "length argv = 4")
  case True
  then show ?thesis
    by (simp add: register_opened Let_def exit_def cerr_line_def)
next
  case False
  then show ?thesis
    by (simp add: register_bad_argc exit_def)
qed

text \<open>
  C34: The bootstrap establishes the invariant of the reader: a return from a
  state with no stream open leaves all three streams live and in good state.
\<close>

theorem registerTestlibCmd_wf:
  assumes "fresh w" and "registerTestlibCmd fs argv w = Inr (u, w')"
  shows "wf_world w' \<and> good (inf_file w') \<and> good (ouf_file w') \<and> good (ans_file w')"
proof -
  have len: "length argv = 4"
    using assms(2) by (cases "length argv = 4") (simp_all add: register_bad_argc exit_def)
  from assms(2) obtain i p a
    where "fs (argv ! 1) = Some i" "fs (argv ! 2) = Some p" "fs (argv ! 3) = Some a"
    using assms(1) unfolding register_opened [OF len]
    by (auto simp: Let_def exit_def is_open_fresh fresh_def split: if_splits)
  with assms show ?thesis
    by (auto simp: register_opened [OF len] open_file_fresh fresh_def wf_world_def)
qed

theorem registerTestlibCmd_wf_witness:
  "wf_world (start\<lparr>inf_file := opened ''3 5'', ouf_file := opened ''8'', ans_file := opened ''8''\<rparr>)"
  using registerTestlibCmd_wf [of start
      "[''in'' \<mapsto> ''3 5'', ''out'' \<mapsto> ''8'', ''ans'' \<mapsto> ''8'']"
      "[''checker'', ''in'', ''out'', ''ans'']" "()"
      "start\<lparr>inf_file := opened ''3 5'', ouf_file := opened ''8'', ans_file := opened ''8''\<rparr>"]
  by (simp add: cxx_defs fresh_def)

text \<open>
  The bootstrap is not idempotent. A second call after a successful one
  returns as well, but \<^verbatim>\<open>open\<close> on a stream that is already open fails: every
  stream keeps its position and has \<open>failbit\<close> set, so the next read of any kind
  fails although the file has data.
\<close>

lemma registerTestlibCmd_twice:
  assumes "length argv = 4"
    and "is_open (inf_file w)" and "is_open (ouf_file w)" and "is_open (ans_file w)"
  shows "registerTestlibCmd fs argv w =
    Inr ((), w\<lparr>inf_file := (inf_file w)\<lparr>failbit := True\<rparr>,
                ouf_file := (ouf_file w)\<lparr>failbit := True\<rparr>,
                ans_file := (ans_file w)\<lparr>failbit := True\<rparr>\<rparr>)"
  using assms by (simp add: register_opened open_file_again)

lemma registerTestlibCmd_twice_example:
  "registerTestlibCmd [''in'' \<mapsto> ''3 5'', ''out'' \<mapsto> ''8'', ''ans'' \<mapsto> ''8'']
      [''checker'', ''in'', ''out'', ''ans'']
      (start\<lparr>inf_file := opened ''3 5'', ouf_file := opened ''8'', ans_file := opened ''8''\<rparr>) =
    Inr ((), start\<lparr>inf_file := (opened ''3 5'')\<lparr>failbit := True\<rparr>,
                    ouf_file := (opened ''8'')\<lparr>failbit := True\<rparr>,
                    ans_file := (opened ''8'')\<lparr>failbit := True\<rparr>\<rparr>)"
  using registerTestlibCmd_twice [of "[''checker'', ''in'', ''out'', ''ans'']"
      "start\<lparr>inf_file := opened ''3 5'', ouf_file := opened ''8'', ans_file := opened ''8''\<rparr>"
      "[''in'' \<mapsto> ''3 5'', ''out'' \<mapsto> ''8'', ''ans'' \<mapsto> ''8'']"]
  by (simp add: cxx_defs)

end
