(* ===== verification/Add_Fileio.thy ===== *)
theory Add_Fileio
  imports Num_Get
begin

text \<open>
  The sample solution \<^verbatim>\<open>src/judger/test/add_fileio.cpp\<close>, the program whose output
  a checker reads: it opens \<^verbatim>\<open>input.txt\<close>, extracts two \<^verbatim>\<open>int\<close>s, and writes their
  sum and a newline to \<^verbatim>\<open>output.txt\<close>. The file system is a map from paths to
  contents. The two variables are declared without a value, so each is an
  option, \<open>None\<close> until an extraction assigns it; using one that was never
  assigned, and a sum outside the range of \<^verbatim>\<open>int\<close>, are undefined behaviour and
  the outcome \<open>Undefined\<close>. The output file is taken to be writable. The two
  calls of \<^verbatim>\<open>close\<close> are not steps of the model: no stream is used after it is
  closed, and what is written reaches the file at once. Printing an
  \<^verbatim>\<open>int\<close> is \<open>print_int\<close>, decimal with a minus sign, as \<^verbatim>\<open>operator<<\<close> does with
  the default flags.
\<close>

section \<open>Printing an integer\<close>

function print_nat :: "nat \<Rightarrow> string" where
  "print_nat n =
     (if n < 10 then [digit_char n] else print_nat (n div 10) @ [digit_char (n mod 10)])"
  by pat_completeness auto

termination print_nat
  by (relation "measure id") auto

declare print_nat.simps [simp del]

definition print_int :: "int \<Rightarrow> string" where
  "print_int v = (if v < 0 then CHR ''-'' # print_nat (nat (- v)) else print_nat (nat v))"

section \<open>The program\<close>

datatype outcome = Returned int "path \<rightharpoonup> string" | Undefined

definition int_add :: "cxx_int \<Rightarrow> cxx_int \<Rightarrow> cxx_int option" where
  "int_add x y = (if in_int_range (sint x + sint y) then Some (x + y) else None)"

definition add_main :: "(path \<rightharpoonup> string) \<Rightarrow> outcome" where
  "add_main fs =
     (let fin = open_file fs ''input.txt'' closed in
      case extract_int None fin of
        (a, fin1) \<Rightarrow>
          (case extract_int None fin1 of
             (b, fin2) \<Rightarrow>
               (case (a, b) of
                  (Some x, Some y) \<Rightarrow>
                    (case int_add x y of
                       None \<Rightarrow> Undefined
                     | Some z \<Rightarrow>
                         Returned 0 (fs(''output.txt'' \<mapsto> print_int (sint z) @ [CHR 0x0A])))
                | _ \<Rightarrow> Undefined)))"

lemmas add_fileio_defs = print_int_def int_add_def add_main_def

declare add_fileio_defs [cxx_defs]

section \<open>Printed integers are integer literals\<close>

lemma print_nat_digits: "list_all isdigit (print_nat n)"
  by (induction n rule: print_nat.induct) (subst print_nat.simps, simp)

lemma print_nat_not_Nil: "print_nat n \<noteq> []"
  by (subst print_nat.simps) simp

lemma dec_val_print_nat: "dec_val (print_nat n) = n"
proof (induction n rule: print_nat.induct)
  case (1 n)
  show ?case
  proof (cases "n < 10")
    case True
    then show ?thesis
      by (subst print_nat.simps) (simp add: dec_val_def)
  next
    case False
    with 1 show ?thesis
      by (subst print_nat.simps) simp
  qed
qed

lemma field_value_print_int: "field_value (print_int v) = Some v"
proof (cases "v < 0")
  case True
  have "field_value (''-'' @ print_nat (nat (- v))) = Some (signed_val ''-'' (print_nat (nat (- v))))"
    by (rule field_value_literal) (simp_all add: print_nat_digits print_nat_not_Nil)
  with True show ?thesis
    by (simp add: print_int_def signed_val_def dec_val_print_nat)
next
  case False
  have "field_value ([] @ print_nat (nat v)) = Some (signed_val [] (print_nat (nat v)))"
    by (rule field_value_literal) (simp_all add: print_nat_digits print_nat_not_Nil)
  with False show ?thesis
    by (simp add: print_int_def signed_val_def dec_val_print_nat)
qed

lemma next_int_print_int:
  assumes "in_int_range v" and "r = [] \<or> \<not> isdigit (hd r)"
  shows "next_int (print_int v @ r) = Some (v, r)"
  using next_int_literal [of "[]" "print_int v" v r] assms
  by (simp add: field_value_print_int)

lemma next_int_Nil [simp]: "next_int [] = None"
  by (simp add: next_int_def accumulate_def)

lemma sint_add_in_range:
  assumes "in_int_range (sint x + sint y)"
  shows "sint (x + y :: cxx_int) = sint x + sint y"
  using assms unfolding sint_word_ariths
  by (simp only: signed_take_bit_int_eq_self_iff limits_defs) simp

text \<open>
  C21: What the solution prints, a reader reads back: for every value of an
  \<^verbatim>\<open>int\<close>, extracting an \<^verbatim>\<open>int\<close> from its printed form followed by a newline
  stores that value, does not fail, and stops before the newline.
\<close>

theorem print_int_roundtrip:
  assumes "in_int_range v"
  shows "extract_int val (opened (print_int v @ [CHR 0x0A])) =
      (Some (word_of_int v), (opened (print_int v @ [CHR 0x0A]))\<lparr>buf := [CHR 0x0A]\<rparr>)
    \<and> sint (word_of_int v :: cxx_int) = v"
proof -
  have "next_int (buf (opened (print_int v @ [CHR 0x0A]))) = Some (v, [CHR 0x0A])"
    using assms by (simp add: next_int_print_int isdigit_def)
  from extract_int_ok [OF good_opened this, of val] sint_in_range [OF assms] show ?thesis
    by (simp add: opened_def)
qed

theorem print_int_roundtrip_witness:
  "extract_int None (opened (print_int (- 2147483648) @ [CHR 0x0A])) =
      (Some (word_of_int (- 2147483648)), (opened (''-2147483648'' @ [CHR 0x0A]))\<lparr>buf := [CHR 0x0A]\<rparr>)
   \<and> print_int (- 2147483648) = ''-2147483648''"
  using print_int_roundtrip [of "- 2147483648" None]
  by (simp add: limits_defs print_int_def print_nat.simps digit_char_def)

section \<open>Runs of the program\<close>

text \<open>
  C20: When \<^verbatim>\<open>input.txt\<close> begins with two integers in the range of \<^verbatim>\<open>int\<close> whose
  sum is in that range, the solution returns 0 and \<^verbatim>\<open>output.txt\<close> holds the
  decimal form of the sum and a newline; no other file changes.
\<close>

theorem add_main_sum:
  assumes "fs ''input.txt'' = Some cs"
    and "next_int cs = Some (a, r)" and "next_int r = Some (b, r')"
    and "in_int_range (a + b)"
  shows "add_main fs = Returned 0 (fs(''output.txt'' \<mapsto> print_int (a + b) @ [CHR 0x0A]))"
proof -
  let ?fin1 = "(opened cs)\<lparr>buf := r, eofbit := (r = [])\<rparr>"
  have 1: "extract_int None (opened cs) = (Some (word_of_int a), ?fin1)"
    using assms(2) by (intro extract_int_ok) simp_all
  from assms(3) have "r \<noteq> []" by auto
  then have "good ?fin1" by (simp add: good_def opened_def)
  moreover have "next_int (buf ?fin1) = Some (b, r')" using assms(3) by simp
  ultimately have 2: "extract_int None ?fin1 =
      (Some (word_of_int b), ?fin1\<lparr>buf := r', eofbit := (r' = [])\<rparr>)"
    by (rule extract_int_ok)
  have s: "sint (word_of_int a :: cxx_int) = a" "sint (word_of_int b :: cxx_int) = b"
    using assms(2,3) by (simp_all add: sint_in_range next_int_in_range)
  with assms(4) have "sint (word_of_int a + word_of_int b :: cxx_int) = a + b"
    by (simp add: sint_add_in_range)
  with s assms(4) show ?thesis
    by (simp add: add_main_def open_file_closed assms(1) 1 2 int_add_def)
qed

theorem add_main_sum_witness:
  "add_main [''input.txt'' \<mapsto> ''3 5''] =
     Returned 0 [''input.txt'' \<mapsto> ''3 5'', ''output.txt'' \<mapsto> ''8'' @ [CHR 0x0A]]"
  using add_main_sum [of "[''input.txt'' \<mapsto> ''3 5'']" "''3 5''" 3 "'' 5''" 5 "[]"]
  by (simp add: cxx_defs print_nat.simps)

lemma second_unassigned:
  assumes "case next_int cs of None \<Rightarrow> True | Some (a, r) \<Rightarrow> \<forall>c \<in> set r. isspace c"
  shows "fst (extract_int None (snd (extract_int None (opened cs)))) = None"
proof (cases "next_int cs")
  case None
  with fail_extract_int_iff [OF good_opened, of None cs]
  have "\<not> good (snd (extract_int None (opened cs)))"
    by (simp add: fail_def good_def)
  then show ?thesis by (simp add: extract_int_not_good)
next
  case (Some p)
  obtain v r where p: "p = (v, r)" by (cases p)
  with Some assms have blank: "\<forall>c \<in> set r. isspace c" by simp
  from extract_int_ok [OF good_opened, of cs v r None] Some p
  have fin1: "snd (extract_int None (opened cs)) = (opened cs)\<lparr>buf := r, eofbit := (r = [])\<rparr>"
    by simp
  show ?thesis
  proof (cases "r = []")
    case True
    then show ?thesis by (simp add: fin1 extract_int_not_good good_def)
  next
    case False
    then have "good ((opened cs)\<lparr>buf := r, eofbit := (r = [])\<rparr>)"
      by (simp add: good_def opened_def)
    with blank show ?thesis by (simp add: fin1 extract_int_eof)
  qed
qed

text \<open>
  C37: With fewer than two integers to read the solution has undefined
  behaviour, because it adds a variable that was never assigned: this is so
  when \<^verbatim>\<open>input.txt\<close> cannot be opened, when it does not begin with an integer in
  range, and when only whitespace follows the first integer.
\<close>

theorem add_main_needs_two_tokens:
  assumes "case fs ''input.txt'' of
      None \<Rightarrow> True
    | Some cs \<Rightarrow> (case next_int cs of None \<Rightarrow> True | Some (a, r) \<Rightarrow> \<forall>c \<in> set r. isspace c)"
  shows "add_main fs = Undefined"
proof (cases "fs ''input.txt''")
  case None
  then have "open_file fs ''input.txt'' closed = closed\<lparr>failbit := True\<rparr>"
    by (simp add: open_file_closed)
  then show ?thesis
    by (simp add: add_main_def extract_int_not_good good_def)
next
  case (Some cs)
  with assms have "fst (extract_int None (snd (extract_int None (opened cs)))) = None"
    by (intro second_unassigned) simp
  then show ?thesis
    by (auto simp: add_main_def open_file_closed Some split: prod.splits option.splits)
qed

theorem add_main_needs_two_tokens_witness:
  "add_main [''input.txt'' \<mapsto> ''3 ''] = Undefined"
  using add_main_needs_two_tokens [of "[''input.txt'' \<mapsto> ''3 '']"]
  by (simp add: cxx_defs)

end
