(* ===== verification/Spec2Isabelle.thy ===== *)
theory Spec2Isabelle
  imports Reader_Loops Read_Double Verdict_Reporter Bootstrap Add_Fileio
begin

text \<open>
  \<^bold>\<open>A verification development for the checker library \<^verbatim>\<open>src/judger/checkers/testlib.h\<close>.\<close>

  \<^bold>\<open>The program.\<close> The header is what a checker program includes: it declares
  three global input streams (\<^verbatim>\<open>inf\<close>, \<^verbatim>\<open>ouf\<close>, \<^verbatim>\<open>ans\<close>), the class \<^verbatim>\<open>InStream\<close>
  with the reads \<^verbatim>\<open>readInt\<close>, \<^verbatim>\<open>readString\<close>, \<^verbatim>\<open>readDouble\<close>, \<^verbatim>\<open>readLine\<close> and the
  probe \<^verbatim>\<open>seekEof\<close>, the bootstrap \<^verbatim>\<open>registerTestlibCmd\<close>, and \<^verbatim>\<open>quitf\<close>, which
  prints the verdict line and exits. A checker registers the streams, reads
  tokens from them, and ends with one call of \<^verbatim>\<open>quitf\<close>; a read that fails ends
  the run itself, with exit code 2. The judge sees only the exit code and the
  two output streams.

  \<^bold>\<open>The theories, in the order of their imports.\<close>
  \<^item> \<open>Testlib_Prelude\<close>: the fact collections (\<open>cxx_defs\<close> for evaluation,
    \<open>wf_keep\<close>, \<open>eats\<close>), \<^verbatim>\<open>int\<close> as \<open>32 word\<close> with its limits, the character
    classes of the "C" locale, the value of a digit string, and the lemmas on
    \<open>takeWhile\<close>, \<open>dropWhile\<close> and \<open>suffix\<close> all scanning proofs share.
  \<^item> \<open>Ifstream\<close>: \<^verbatim>\<open>std::ifstream\<close> as the record \<open>ifstream\<close> (open flag, unread
    characters, \<open>eofbit\<close>, \<open>failbit\<close>, \<open>badbit\<close>) and the library calls the header
    makes: \<open>open_file\<close>, \<open>sentry\<close>, \<open>ws\<close>, \<open>extract_string\<close>, \<open>getline\<close>, \<open>good\<close>,
    \<open>eof\<close>, \<open>fail\<close>. The invariants \<open>wf_stream\<close> and \<open>live\<close>.
  \<^item> \<open>Num_Get\<close>: \<^verbatim>\<open>operator>>(int&)\<close> as \<open>extract_int\<close>: the three stages of
    \<^verbatim>\<open>num_get\<close> (\<open>accumulate\<close>, \<open>field_value\<close>, \<open>num_get_signed\<close>) and the narrowing
    \<open>narrow_int\<close>; the reference \<open>next_int\<close> it is proved against.
  \<^item> \<open>Double_Rounding\<close>: a \<^verbatim>\<open>double\<close> as the record \<open>double\<close> (sign, mantissa below
    \<open>2\<^sup>5\<^sup>3\<close>, binary exponent), its value \<open>valof\<close> as a real number, the format
    \<open>is_double\<close> and the same without a largest exponent (\<open>in_precision\<close>), and
    the conversion \<open>round_to_double\<close> of a fraction of naturals to the nearest
    \<^verbatim>\<open>double\<close>, ties to even, which is what \<^verbatim>\<open>strtod\<close> computes; that its result
    is within half a unit in the last place and that no number of the
    precision is closer.
  \<^item> \<open>Num_Get_Float\<close>: \<^verbatim>\<open>operator>>(double&)\<close> as \<open>extract_double\<close>: the field
    stage 2 accumulates (\<open>float_chars\<close>, \<open>scan_float\<close>), its value as a fraction
    (\<open>float_literal\<close>), the conversion with its failures (\<open>convert_to_v\<close>); the
    function \<open>next_double\<close> on the text alone that names what it finds.
  \<^item> \<open>Float_Literals\<close>: the grammar of a decimal literal as the inductive
    predicate \<open>decimal_literal\<close>, which gives the sign and the number
    \<open>N \<times> 10\<^sup>E\<close> of a literal from its parts and does not mention the scanner;
    that the scanner takes such a literal whole and reads it as that number.
  \<^item> \<open>Process\<close>: the state of the process (\<open>world\<close>: the three streams, what
    was written to \<^verbatim>\<open>cout\<close> and \<^verbatim>\<open>cerr\<close>), the exit codes \<^verbatim>\<open>_ok\<close> ... \<^verbatim>\<open>_points\<close>
    (\<open>code_ok\<close> ... \<open>code_points\<close>), results \<open>stop + 'a \<times> world\<close> with \<open>exit\<close>, the
    sequencing \<open>and_then\<close>, what the judge observes of a result (\<open>exit_status\<close>,
    \<open>reported\<close>), and \<open>protocol\<close>, the contract every component is shown to keep.
  \<^item> \<open>Stream_Reader\<close>: the class \<^verbatim>\<open>InStream\<close> as the record \<open>InStream\<close> and its
    methods \<open>readInt\<close>, \<open>readString\<close>, \<open>readDouble\<close>, \<open>readLine\<close>, \<open>seekEof\<close>,
    \<open>initFile\<close>, with the shared failure path \<open>read_failed\<close>; \<open>read_with\<close>, the
    shape the reads share, as the interface the generic lemmas are proved
    over, and \<open>extractor_ok\<close>, what they need of an extractor.
  \<^item> \<open>Read_Double\<close>: what \<open>readDouble\<close> returns on a decimal literal, what holds
    of every number it returns, and when it fails.
  \<^item> \<open>Reader_Runs\<close>: calls by name (\<open>call\<close>, \<open>perform\<close>), lists of calls (\<open>run\<close>)
    and the relation \<open>trace\<close> between the states of a reader, with what holds
    along every run.
  \<^item> \<open>Reader_Loops\<close>: the loop that reads integers until \<open>seekEof\<close> (\<open>read_ints\<close>),
    its termination, and its specification on the text of the file (\<open>ints_of\<close>);
    the same loop over any call (\<open>read_until_eof\<close>), for which not returning is
    the value \<open>None\<close>, and the proof that it ends when the call is a read.
  \<^item> \<open>Verdict_Reporter\<close>: \<open>quitf\<close> with \<open>label\<close> and the buffer \<open>vsnprintf\<close>;
    \<open>setName\<close>; the verdict table of the specification as the datatype
    \<open>verdict\<close> with \<open>verdict_code\<close> and \<open>verdict_label\<close>.
  \<^item> \<open>Bootstrap\<close>: \<open>registerTestlibCmd\<close> over a map from paths to file contents.
  \<^item> \<open>Add_Fileio\<close>: the sample solution \<^verbatim>\<open>src/judger/test/add_fileio.cpp\<close> as
    \<open>add_main\<close> over a map from paths to contents, with the printing of an \<^verbatim>\<open>int\<close>
    (\<open>print_int\<close>) and the signed addition \<open>int_add\<close>.
  \<^item> \<open>Spec2Isabelle\<close> (this theory): a checker that compares one integer, as
    the specification's scenarios describe it, and the properties of whole
    runs that span the components.

  \<^bold>\<open>How the model corresponds to the code.\<close> Every definition is executable
  and follows the statements of the source in their order. Mutation is state
  passing: a method takes the object (\<open>this\<close>) and the \<open>world\<close> and returns
  both; the reference member \<^verbatim>\<open>std::ifstream& stream\<close> is a \<open>stream_ref\<close>, read and
  written through \<open>get_stream\<close> and \<open>put_stream\<close>. \<^verbatim>\<open>exit(code)\<close> is the value
  \<open>Inl (Exit code w)\<close>; a local variable that was never assigned and is returned
  is \<open>Inl Undefined_Behaviour\<close>. The standard library is modelled after the C++
  standard's text for the calls the header makes, for the classic locale and
  the default format flags (\<^verbatim>\<open>skipws\<close>, \<^verbatim>\<open>dec\<close>); \<^verbatim>\<open>long\<close> has 64 bits where its
  width matters (\<open>long_width_irrelevant\<close> shows it does not matter for the
  result). A \<^verbatim>\<open>double\<close> is an IEEE 754 binary64 number and \<^verbatim>\<open>strtod\<close> rounds to
  nearest, ties to even; the characters \<^verbatim>\<open>operator>>(double&)\<close> accepts are
  those the GNU library accepts, where the standard leaves the choice to the
  implementation. Text is a list of bytes; the text \<^verbatim>\<open>quitf\<close> prints is the one its
  format and arguments expand to. No loop needs fuel: every scan of the
  library is a \<open>takeWhile\<close> or \<open>dropWhile\<close> over the finite unread input, and the
  loop \<open>read_ints\<close> is a total function by a termination proof whose measure is
  the number of unread characters. The loop \<open>read_until_eof\<close> has a body that
  need not consume input (a probe does not), so it is a partial function into
  \<open>option\<close>; that it ends is a theorem for the bodies that are reads, and
  \<open>read_until_eof_probe_diverges\<close> shows that the restriction is needed.

  \<^bold>\<open>What is proved.\<close> For each read: the value returned and the input consumed
  on a well-formed token; the exit code, the diagnostic and the untouched
  \<^verbatim>\<open>cout\<close> on every failure; that nothing but a return or exit 2 can happen; the
  frame (other streams, \<^verbatim>\<open>cout\<close>, \<^verbatim>\<open>cerr\<close>, the name), the counter and the
  progress. For \<open>extract_int\<close>: that it implements \<open>next_int\<close>. For
  \<open>readDouble\<close>: that a decimal literal before whitespace or the end of the
  file is read whole and the \<^verbatim>\<open>double\<close> returned is one no \<^verbatim>\<open>double\<close> is closer
  to the number written (\<open>readDouble_token\<close>, against the grammar
  \<open>decimal_literal\<close>); that every number returned is within half a unit in
  the last place of the value of the field and that no number of 53 bits is
  closer to it; that the conversion is exact on numbers that are \<^verbatim>\<open>double\<close>s;
  and that a number of \<open>(2\<^sup>5\<^sup>4 - 1) \<times> 2\<^sup>9\<^sup>7\<^sup>0\<close> or more ends the run with exit
  code 2. The record \<open>double\<close> has no infinity and no NaN: that none is
  returned is a property of the model's type, not a theorem. For \<open>seekEof\<close>: its
  answer, what it consumes, that it never fails. For \<open>quitf\<close>: the line written
  and the code, for every code, the truncation by the buffer, and the
  agreement with the verdict table. For the bootstrap: the outcomes, the state
  they leave, and that it may run only once. For runs of calls: the counter
  counts the reads and cannot overflow on a file of fewer than \<open>2\<^sup>3\<^sup>1 - 1\<close>
  characters. For the loop: it returns the integers of the file or exits with
  code 2; over any read, it ends, at the end of the file with one count per
  answer or by exit code 2. For the sample solution: its output on two integers, the round trip of a
  printed \<^verbatim>\<open>int\<close> through the extractor, and the undefined behaviour on fewer
  than two integers. For the checker as a whole: the verdict for every pair of
  files that begin with integers, and that every run ends by an exit that follows the
  protocol. The invariant \<open>wf_world\<close> is established by the bootstrap and kept
  by everything that returns. The divergences from the specification found on
  the way are recorded in the manifest next to the theorems that show them.

  \<^bold>\<open>What is not modelled.\<close> The expansion of a \<^verbatim>\<open>printf\<close> format (the message
  is taken after expansion); locales other than the classic one and rounding
  modes other than to nearest; arithmetic on the \<^verbatim>\<open>double\<close> a checker has read
  (the header does none); read errors of the
  operating system (\<open>badbit\<close> is never raised, and the output file of the
  sample solution can always be written); the calls of \<^verbatim>\<open>close\<close> in the sample
  solution, after which no stream is used. The three global \<^verbatim>\<open>InStream\<close> objects
  are declared in the source with arguments that do not fit the constructor;
  the model binds them as the constructor's signature and the specification
  intend, by \<open>new_InStream\<close>.
\<close>

section \<open>A checker that compares one integer\<close>

text \<open>
  The checker of the specification's scenarios: read one integer from the
  answer and one from the contestant's output, report a wrong answer when they
  differ, extraneous output when the contestant's file has more tokens, and
  accept otherwise.
\<close>

definition compare_one_int :: "unit prog" where
  "compare_one_int =
     and_then (readInt (new_InStream R_ans ''ans'')) (\<lambda>(ja, a).
     and_then (readInt (new_InStream R_ouf ''ouf'')) (\<lambda>(pa, p).
       if ja \<noteq> pa then quitf code_wa ''answers differ''
       else and_then (seekEof p) (\<lambda>(at_end, p1).
         if \<not> at_end then quitf code_dirt ''extra tokens in output''
         else quitf code_ok ''answer is correct'')))"

definition checker_main :: "(path \<rightharpoonup> string) \<Rightarrow> string list \<Rightarrow> unit prog" where
  "checker_main fs argv = and_then (registerTestlibCmd fs argv) (\<lambda>_. compare_one_int)"

section \<open>Runs of the checker\<close>

lemma compare_one_int_verdict:
  assumes "ans_file w = opened a" and "ouf_file w = opened p"
    and "next_int a = Some (ja, ra)" and "next_int p = Some (pa, rp)"
  shows "reported (compare_one_int w) =
    Some (if ja \<noteq> pa then (1, cout w @ ''Wrong Answer answers differ'' @ [CHR 0x0A])
          else if \<forall>c \<in> set rp. isspace c
          then (0, cout w @ ''OK answer is correct'' @ [CHR 0x0A])
          else (4, cout w @ ''DIRT extra tokens in output'' @ [CHR 0x0A]))"
proof -
  let ?A = "new_InStream R_ans ''ans''" and ?P = "new_InStream R_ouf ''ouf''"
  let ?w1 = "w\<lparr>ans_file := (opened a)\<lparr>buf := ra, eofbit := (ra = [])\<rparr>\<rparr>"
  let ?w2 = "?w1\<lparr>ouf_file := (opened p)\<lparr>buf := rp, eofbit := (rp = [])\<rparr>\<rparr>"
  let ?P1 = "?P\<lparr>readCount := readCount ?P + 1\<rparr>"
  have 1: "readInt ?A w = Inr ((word_of_int ja, ?A\<lparr>readCount := readCount ?A + 1\<rparr>), ?w1)"
    using readInt_next_int [of ?A w ja ra] assms(1,3) by (simp add: new_InStream_def)
  have 2: "readInt ?P ?w1 = Inr ((word_of_int pa, ?P1), ?w2)"
    using readInt_next_int [of ?P ?w1 pa rp] assms(2,4) by (simp add: new_InStream_def)
  have eq: "(word_of_int ja :: cxx_int) = word_of_int pa \<longleftrightarrow> ja = pa"
    using assms(3,4) by (intro word_of_int_eq_iff next_int_in_range)
  obtain w3 where 3: "seekEof ?P1 ?w2 = Inr ((\<forall>c \<in> set rp. isspace c, ?P1), w3)"
    and "cout w3 = cout w"
    using seekEof_after_token [where this = ?P1 and w = ?w2 and cs = p and r = rp]
    by (auto simp: new_InStream_def)
  then show ?thesis
    by (simp add: compare_one_int_def and_then_def 1 2 eq code_defs label_def vsnprintf_def
        c_str_def cout_line_def)
qed

lemma compare_one_int_rejects:
  assumes "ans_file w = opened a" and "ouf_file w = opened p"
    and "next_int a = Some (ja, ra)" and "next_int p = None"
  shows "reported (compare_one_int w) = Some (2, cout w)"
proof -
  let ?A = "new_InStream R_ans ''ans''" and ?P = "new_InStream R_ouf ''ouf''"
  let ?w1 = "w\<lparr>ans_file := (opened a)\<lparr>buf := ra, eofbit := (ra = [])\<rparr>\<rparr>"
  have 1: "readInt ?A w = Inr ((word_of_int ja, ?A\<lparr>readCount := readCount ?A + 1\<rparr>), ?w1)"
    using readInt_next_int [of ?A w ja ra] assms(1,3) by (simp add: new_InStream_def)
  have "good (get_stream (stream ?P) ?w1)" "next_int (buf (get_stream (stream ?P) ?w1)) = None"
    using assms(2,4) by (simp_all add: new_InStream_def)
  then have "exit_status (readInt ?P ?w1) = Some code_pe" by (rule readInt_rejects)
  moreover have "case readInt ?P ?w1 of
      Inl (Exit c w') \<Rightarrow> c = code_pe \<and> cout w' = cout ?w1 \<and> cerr ?w1 \<noteq> cerr w'
    | Inl Undefined_Behaviour \<Rightarrow> False
    | Inr ((v, this'), w') \<Rightarrow> this' = ?P\<lparr>readCount := readCount ?P + 1\<rparr> \<and>
        cout w' = cout ?w1 \<and> cerr w' = cerr ?w1"
    unfolding readInt_read_with by (rule read_with_outcomes) (rule extractor_ok_int)
  ultimately show ?thesis
    by (auto simp: compare_one_int_def and_then_def 1 exit_status_def reported_def code_pe_def
        split: sum.splits stop.splits)
qed

lemma checker_main_registered:
  assumes "length argv = 4"
    and "fs (argv ! 1) = Some i" and "fs (argv ! 2) = Some p" and "fs (argv ! 3) = Some a"
  shows "checker_main fs argv start =
    compare_one_int (start\<lparr>inf_file := opened i, ouf_file := opened p, ans_file := opened a\<rparr>)"
  using assms
  by (simp add: checker_main_def and_then_def register_opened open_file_fresh start_def closed_def)

text \<open>
  C6: A run of the checker on three readable files whose answer and output
  both begin with an integer in range ends with the verdict the comparison
  calls for: wrong answer (exit 1) when the integers differ, accepted (exit 0)
  when they agree and only whitespace follows in the output, extraneous output
  (exit 4) when they agree and anything else follows. Standard output is
  exactly the verdict line.
\<close>

theorem checker_main_verdict:
  assumes "length argv = 4"
    and "fs (argv ! 1) = Some i" and "fs (argv ! 2) = Some p" and "fs (argv ! 3) = Some a"
    and "next_int a = Some (ja, ra)" and "next_int p = Some (pa, rp)"
  shows "reported (checker_main fs argv start) =
    Some (if ja \<noteq> pa then (1, ''Wrong Answer answers differ'' @ [CHR 0x0A])
          else if \<forall>c \<in> set rp. isspace c
          then (0, ''OK answer is correct'' @ [CHR 0x0A])
          else (4, ''DIRT extra tokens in output'' @ [CHR 0x0A]))"
  unfolding checker_main_registered [OF assms(1-4)]
  using compare_one_int_verdict [OF _ _ assms(5,6),
      of "start\<lparr>inf_file := opened i, ouf_file := opened p, ans_file := opened a\<rparr>"]
  by (simp add: start_def)

theorem checker_main_verdict_witness:
  "reported (checker_main [''in'' \<mapsto> ''3 5'', ''out'' \<mapsto> ''8 extra'', ''ans'' \<mapsto> ''8'']
      [''checker'', ''in'', ''out'', ''ans''] start) =
    Some (4, ''DIRT extra tokens in output'' @ [CHR 0x0A])"
  using checker_main_verdict [of "[''checker'', ''in'', ''out'', ''ans'']"
      "[''in'' \<mapsto> ''3 5'', ''out'' \<mapsto> ''8 extra'', ''ans'' \<mapsto> ''8'']"
      "''3 5''" "''8 extra''" "''8''" 8 "[]" 8 "'' extra''"]
  by (simp add: cxx_defs)

text \<open>
  C33: When the contestant's output does not begin with an integer in range
  (it is empty, blank, malformed or too large) the run ends with exit code 2,
  and nothing at all is on standard output: the failure is reported by the
  reader on \<^verbatim>\<open>cerr\<close>, not by a verdict line.
\<close>

theorem checker_main_presentation_error:
  assumes "length argv = 4"
    and "fs (argv ! 1) = Some i" and "fs (argv ! 2) = Some p" and "fs (argv ! 3) = Some a"
    and "next_int a = Some (ja, ra)" and "next_int p = None"
  shows "reported (checker_main fs argv start) = Some (2, [])"
  unfolding checker_main_registered [OF assms(1-4)]
  using compare_one_int_rejects [OF _ _ assms(5,6),
      of "start\<lparr>inf_file := opened i, ouf_file := opened p, ans_file := opened a\<rparr>"]
  by (simp add: start_def)

theorem checker_main_presentation_error_witness:
  "reported (checker_main [''in'' \<mapsto> ''3 5'', ''out'' \<mapsto> [], ''ans'' \<mapsto> ''8'']
      [''checker'', ''in'', ''out'', ''ans''] start) = Some (2, [])"
  using checker_main_presentation_error [of "[''checker'', ''in'', ''out'', ''ans'']"
      "[''in'' \<mapsto> ''3 5'', ''out'' \<mapsto> [], ''ans'' \<mapsto> ''8'']"
      "''3 5''" "[]" "''8''" 8 "[]"]
  by (simp add: cxx_defs)

lemma protocol_compare_one_int: "protocol {code_ok, code_wa, code_dirt} w (compare_one_int w)"
  by (auto simp: compare_one_int_def split: prod.splits
      intro!: protocol_and_then protocol_reads protocol_seekEof protocol_quitf)

lemma compare_one_int_exits: "\<not> returns (compare_one_int w)"
  by (auto simp: compare_one_int_def and_then_def returns_def quitf_exit exit_def
      split: sum.splits prod.splits)

text \<open>
  C11: Every run of the checker, on any file system and any arguments, ends by
  an exit that follows the protocol: either a verdict (code 0, 1 or 4) with
  text on standard output and nothing on \<^verbatim>\<open>cerr\<close>, or a failure (code 2 or 3)
  with a diagnostic on \<^verbatim>\<open>cerr\<close> and nothing on standard output. It never returns
  into the caller and never reads an unassigned variable.
\<close>

theorem checker_main_protocol:
  "\<exists>c w'. checker_main fs argv start = Inl (Exit c w') \<and>
     (c \<in> {0, 1, 4} \<and> cout w' \<noteq> [] \<and> cerr w' = []
      \<or> c \<in> {2, 3} \<and> cout w' = [] \<and> cerr w' \<noteq> [])"
proof -
  let ?r = "checker_main fs argv start"
  have p: "protocol {code_ok, code_wa, code_dirt} start ?r"
    unfolding checker_main_def
    by (intro protocol_and_then protocol_register protocol_compare_one_int)
  have "\<not> returns ?r"
    unfolding checker_main_def by (rule and_then_never_returns) (rule compare_one_int_exits)
  with p obtain c w' where "?r = Inl (Exit c w')" by (blast dest: protocol_exits)
  with p show ?thesis
    by (auto simp: protocol_def code_defs start_def)
qed

text \<open>
  A run with the wrong number of arguments, or with a file that cannot be
  opened, ends with exit code 3 before anything is read, and standard output
  stays empty.
\<close>

lemma checker_main_internal_fail:
  assumes "length argv \<noteq> 4 \<or> fs (argv ! 1) = None \<or> fs (argv ! 2) = None \<or> fs (argv ! 3) = None"
  shows "reported (checker_main fs argv start) = Some (3, [])"
proof (cases "length argv = 4")
  case True
  with assms show ?thesis
    by (auto simp: checker_main_def and_then_def register_opened is_open_fresh Let_def
        start_def closed_def exit_def reported_def code_fail_def cerr_line_def)
next
  case False
  then show ?thesis
    by (simp add: checker_main_def and_then_def register_bad_argc exit_def reported_def
        code_fail_def start_def)
qed

lemma checker_main_internal_fail_example:
  "reported (checker_main [''in'' \<mapsto> ''3 5'', ''out'' \<mapsto> ''8'']
      [''checker'', ''in'', ''out'', ''ans''] start) = Some (3, [])"
  using checker_main_internal_fail [of "[''checker'', ''in'', ''out'', ''ans'']"
      "[''in'' \<mapsto> ''3 5'', ''out'' \<mapsto> ''8'']"]
  by (simp add: cxx_defs)

section \<open>The first scenario of the specification, end to end\<close>

text \<open>
  The sample solution run on the input \<^verbatim>\<open>3 5\<close>, then the checker on its output
  and the answer \<^verbatim>\<open>8\<close>: exit code 0 and the line \<^verbatim>\<open>OK answer is correct\<close>.
\<close>

lemma scenario_accepted:
  "case add_main [''input.txt'' \<mapsto> ''3 5''] of
     Returned c fs' \<Rightarrow>
       c = 0 \<and>
       reported (checker_main (fs'(''answer.txt'' \<mapsto> ''8''))
           [''checker'', ''input.txt'', ''output.txt'', ''answer.txt''] start) =
         Some (0, ''OK answer is correct'' @ [CHR 0x0A])
   | Undefined \<Rightarrow> False"
  by (simp add: cxx_defs checker_main_def compare_one_int_def print_nat.simps Let_def)

end
